theory Spec2Isabelle
  imports Complex_Main
begin

section \<open>Common conventions\<close>

text \<open>
  The two modules of the repository, \<^verbatim>\<open>src/model.py\<close> (the Adam optimizer and its
  step scheduler) and \<^verbatim>\<open>src/utils.py\<close> (the structured inverse and log-determinant),
  are embedded below. Python floats and \<^verbatim>\<open>float32\<close> tensor entries are read as real
  numbers: every operation computes the exact value that the floating-point operation
  rounds. The rounding is made explicit, by a rounding function applied to the result
  of every operation, in a second embedding of \<^verbatim>\<open>MatrixInverse\<close>. Python exceptions are
  values of the type \<open>error\<close>, and a computation that may raise returns \<open>error + 'a\<close>
  with \<open>Inl\<close> for the exception.
\<close>

datatype error =
    KeyError string           \<comment> \<open>a dictionary lookup \<^verbatim>\<open>d[k]\<close> with \<open>k\<close> absent\<close>
  | ZeroDivisionError         \<comment> \<open>integer floor division by 0, or \<^verbatim>\<open>0.0 ** n\<close> with \<open>n < 0\<close>\<close>
  | RuntimeError              \<comment> \<open>torch: operand shapes that cannot be combined\<close>
  | TypeError                 \<comment> \<open>an operand that is not of the kind the operation takes\<close>
  | AttributeError            \<comment> \<open>an attribute read from an object that does not have it\<close>
  | LinAlgError               \<comment> \<open>torch.linalg: the matrix is not invertible\<close>
  | NumericalInstabilityError \<comment> \<open>named by the specification; no source line raises it\<close>
  | ShapeMismatchError        \<comment> \<open>named by the specification; no source line raises it\<close>

definition bind :: "error + 'a \<Rightarrow> ('a \<Rightarrow> error + 'b) \<Rightarrow> error + 'b" where
  "bind r f = (case r of Inl e \<Rightarrow> Inl e | Inr x \<Rightarrow> f x)"

section \<open>\<^verbatim>\<open>src/model.py\<close>: the step scheduler\<close>

text \<open>
  \<^verbatim>\<open>alpha ** n\<close> for a float \<open>alpha\<close> and a Python integer \<open>n\<close>: a negative exponent
  is the reciprocal of the positive power, and raises \<^verbatim>\<open>ZeroDivisionError\<close> for the
  base \<open>0.0\<close>.
\<close>

definition float_pow :: "real \<Rightarrow> int \<Rightarrow> error + real" where
  "float_pow a n =
     (if 0 \<le> n then Inr (a ^ nat n)
      else if a = 0 then Inl ZeroDivisionError
      else Inr (1 / a ^ nat (- n)))"

text \<open>\<^verbatim>\<open>a // b\<close> on Python integers: floor division, \<^verbatim>\<open>ZeroDivisionError\<close> for \<open>b = 0\<close>.\<close>

definition floordiv :: "int \<Rightarrow> int \<Rightarrow> error + int" where
  "floordiv a b = (if b = 0 then Inl ZeroDivisionError else Inr (a div b))"

text \<open>
  \<^verbatim>\<open>
  def step_scheduler(alpha, step):
      def scheduler(i, lr):
          return lr*alpha**((i+1)//step)
      return scheduler
  \<close>
  The exponent is evaluated first (\<^verbatim>\<open>**\<close> binds tighter than \<^verbatim>\<open>*\<close>).
\<close>

definition step_scheduler :: "real \<Rightarrow> int \<Rightarrow> (int \<Rightarrow> real \<Rightarrow> error + real)" where
  "step_scheduler alpha step = (\<lambda>i lr.
     bind (floordiv (i + 1) step) (\<lambda>e.
     bind (float_pow alpha e) (\<lambda>p.
     Inr (lr * p))))"

section \<open>\<^verbatim>\<open>src/model.py\<close>: tensors and dictionaries\<close>

text \<open>
  A tensor is the list of its entries (a one-dimensional tensor; a tensor of any other
  shape is read through its flattened entries). \<^verbatim>\<open>a + b\<close>, \<^verbatim>\<open>a - b\<close>, \<^verbatim>\<open>a * b\<close> and
  \<^verbatim>\<open>a / b\<close> on two tensors work entry by entry; torch broadcasts an operand of size 1
  against the other and raises \<^verbatim>\<open>RuntimeError\<close> for any other pair of different sizes.
\<close>

type_synonym tensor = "real list"

definition broadcast2 :: "(real \<Rightarrow> real \<Rightarrow> real) \<Rightarrow> tensor \<Rightarrow> tensor \<Rightarrow> error + tensor" where
  "broadcast2 f xs ys =
     (if length xs = length ys then Inr (map2 f xs ys)
      else if length xs = 1 then Inr (map (f (hd xs)) ys)
      else if length ys = 1 then Inr (map (\<lambda>x. f x (hd ys)) xs)
      else Inl RuntimeError)"

definition t_add :: "tensor \<Rightarrow> tensor \<Rightarrow> error + tensor" where
  "t_add = broadcast2 (+)"

definition t_sub :: "tensor \<Rightarrow> tensor \<Rightarrow> error + tensor" where
  "t_sub = broadcast2 (-)"

definition t_mul :: "tensor \<Rightarrow> tensor \<Rightarrow> error + tensor" where
  "t_mul = broadcast2 (*)"

definition t_div :: "tensor \<Rightarrow> tensor \<Rightarrow> error + tensor" where
  "t_div = broadcast2 (/)"

text \<open>A Python float combined with a tensor acts on every entry and never raises.\<close>

definition s_mul :: "real \<Rightarrow> tensor \<Rightarrow> tensor" where
  "s_mul c xs = map (\<lambda>x. c * x) xs"

definition s_div :: "tensor \<Rightarrow> real \<Rightarrow> tensor" where
  "s_div xs c = map (\<lambda>x. x / c) xs"

definition s_add :: "tensor \<Rightarrow> real \<Rightarrow> tensor" where
  "s_add xs c = map (\<lambda>x. x + c) xs"

definition t_sqrt :: "tensor \<Rightarrow> tensor" where
  "t_sqrt xs = map sqrt xs"

definition zeros_like :: "tensor \<Rightarrow> tensor" where
  "zeros_like xs = replicate (length xs) 0"

text \<open>
  A Python \<^verbatim>\<open>dict\<close> from parameter names to tensors is an association list in insertion
  order. \<^verbatim>\<open>d[k]\<close> raises \<^verbatim>\<open>KeyError\<close> for an absent key; \<^verbatim>\<open>for k in d\<close> runs through the
  keys in order. A comprehension \<^verbatim>\<open>{k: e(k) for k in ks}\<close> evaluates \<open>e\<close> at each key in
  turn and stops at the first exception.
\<close>

type_synonym tdict = "(string \<times> tensor) list"

definition keys :: "tdict \<Rightarrow> string list" where
  "keys d = map fst d"

definition lookup :: "tdict \<Rightarrow> string \<Rightarrow> error + tensor" where
  "lookup d k = (case map_of d k of None \<Rightarrow> Inl (KeyError k) | Some x \<Rightarrow> Inr x)"

fun dict_comp :: "string list \<Rightarrow> (string \<Rightarrow> error + tensor) \<Rightarrow> error + tdict" where
  "dict_comp [] e = Inr []"
| "dict_comp (k # ks) e =
     bind (e k) (\<lambda>x. bind (dict_comp ks e) (\<lambda>d. Inr ((k, x) # d)))"

section \<open>\<^verbatim>\<open>src/model.py\<close>: the class \<^verbatim>\<open>Adam\<close>\<close>

text \<open>
  The instance attributes. The attributes \<^verbatim>\<open>self.m\<close>, \<^verbatim>\<open>self.v\<close> and \<^verbatim>\<open>self.i\<close> are the
  fields \<open>self_m\<close>, \<open>self_v\<close> and \<open>self_i\<close>. The counter starts at 0 and is only ever
  incremented, so it is a natural number. The device is an opaque handle of any type.
  \<^verbatim>\<open>callable(self.scheduler)\<close> holds exactly when the field is \<open>Some f\<close>.
\<close>

record 'dev adam =
  learning_rate :: real
  b1 :: real
  b2 :: real
  eps :: real
  device :: 'dev
  weight_decay :: real
  scheduler :: "(int \<Rightarrow> real \<Rightarrow> error + real) option"
  self_m :: tdict
  self_v :: tdict
  self_i :: nat

text \<open>
  \<^verbatim>\<open>{v: torch.zeros_like(params[v], dtype=torch.float32).to(self.device) for v in params}\<close>.
  The key \<open>k\<close> runs through the keys of \<open>params\<close>, so the lookup finds it; the branch
  for an absent key is never taken.
\<close>

definition zeros_dict :: "tdict \<Rightarrow> tdict" where
  "zeros_dict params =
     map (\<lambda>k. (k, zeros_like (case map_of params k of Some x \<Rightarrow> x | None \<Rightarrow> []))) (keys params)"

text \<open>\<^verbatim>\<open>Adam.__init__\<close>, with its arguments in the order of the source.\<close>

definition Adam ::
  "tdict \<Rightarrow> 'dev \<Rightarrow> (int \<Rightarrow> real \<Rightarrow> error + real) option \<Rightarrow> real \<Rightarrow> real \<Rightarrow> real \<Rightarrow> real \<Rightarrow> real
   \<Rightarrow> 'dev adam" where
  "Adam params dev sched lr beta1 beta2 epsilon wd =
     \<lparr> learning_rate = lr, b1 = beta1, b2 = beta2, eps = epsilon, device = dev,
       weight_decay = wd, scheduler = sched,
       self_m = zeros_dict params, self_v = zeros_dict params, self_i = 0 \<rparr>"

text \<open>The property \<^verbatim>\<open>scheduled_lr\<close>.\<close>

definition scheduled_lr :: "'dev adam \<Rightarrow> error + real" where
  "scheduled_lr s =
     (case scheduler s of
        Some f \<Rightarrow> f (int (self_i s)) (learning_rate s)
      | None \<Rightarrow> Inr (learning_rate s))"

text \<open>
  \<^verbatim>\<open>Adam.update\<close>, one definition for each of its six lines.
  Line 41: \<^verbatim>\<open>g = {v: g[v]+self.weight_decay*params[v] for v in g}\<close>.
\<close>

definition decayed_g :: "'dev adam \<Rightarrow> tdict \<Rightarrow> tdict \<Rightarrow> error + tdict" where
  "decayed_g s params g =
     dict_comp (keys g) (\<lambda>k.
       bind (lookup g k) (\<lambda>gk.
       bind (lookup params k) (\<lambda>pk.
       t_add gk (s_mul (weight_decay s) pk))))"

text \<open>Line 42: \<^verbatim>\<open>self.m = {v: (1-self.b1)*g[v]+self.b1*self.m[v] for v in g}\<close>.\<close>

definition next_m :: "'dev adam \<Rightarrow> tdict \<Rightarrow> error + tdict" where
  "next_m s g =
     dict_comp (keys g) (\<lambda>k.
       bind (lookup g k) (\<lambda>gk.
       bind (lookup (self_m s) k) (\<lambda>mk.
       t_add (s_mul (1 - b1 s) gk) (s_mul (b1 s) mk))))"

text \<open>Line 43: \<^verbatim>\<open>self.v = {k: (1-self.b2)*g[k]*g[k]+self.b2*self.v[k] for k in g}\<close>.\<close>

definition next_v :: "'dev adam \<Rightarrow> tdict \<Rightarrow> error + tdict" where
  "next_v s g =
     dict_comp (keys g) (\<lambda>k.
       bind (lookup g k) (\<lambda>gk.
       bind (t_mul (s_mul (1 - b2 s) gk) gk) (\<lambda>sq.
       bind (lookup (self_v s) k) (\<lambda>vk.
       t_add sq (s_mul (b2 s) vk)))))"

text \<open>Line 44: \<^verbatim>\<open>mhat = {v: self.m[v]/(1.-self.b1**(self.i+1)) for v in g}\<close>.\<close>

definition mhat_of :: "'dev adam \<Rightarrow> tdict \<Rightarrow> error + tdict" where
  "mhat_of s g =
     dict_comp (keys g) (\<lambda>k.
       bind (lookup (self_m s) k) (\<lambda>mk.
       Inr (s_div mk (1 - b1 s ^ (self_i s + 1)))))"

text \<open>Line 45: \<^verbatim>\<open>vhat = {k: self.v[k]/(1.-self.b2**(self.i+1)) for k in g}\<close>.\<close>

definition vhat_of :: "'dev adam \<Rightarrow> tdict \<Rightarrow> error + tdict" where
  "vhat_of s g =
     dict_comp (keys g) (\<lambda>k.
       bind (lookup (self_v s) k) (\<lambda>vk.
       Inr (s_div vk (1 - b2 s ^ (self_i s + 1)))))"

text \<open>
  Line 46: \<^verbatim>\<open>return {v: params[v]-self.scheduled_lr*mhat[v]/(torch.sqrt(vhat[v])+self.eps) for v in params}\<close>.
  The property \<^verbatim>\<open>scheduled_lr\<close> is read once for each key, after \<^verbatim>\<open>params[v]\<close> and
  before \<^verbatim>\<open>mhat[v]\<close>.
\<close>

definition next_params :: "'dev adam \<Rightarrow> tdict \<Rightarrow> tdict \<Rightarrow> tdict \<Rightarrow> error + tdict" where
  "next_params s params mhat vhat =
     dict_comp (keys params) (\<lambda>k.
       bind (lookup params k) (\<lambda>pk.
       bind (scheduled_lr s) (\<lambda>lr.
       bind (lookup mhat k) (\<lambda>mh.
       bind (lookup vhat k) (\<lambda>vh.
       bind (t_div (s_mul lr mh) (s_add (t_sqrt vh) (eps s))) (\<lambda>q.
       t_sub pk q))))))"

text \<open>
  \<^verbatim>\<open>Adam.update\<close> returns the outcome of the call (the new parameters, or the exception
  that escapes) together with the instance as the call leaves it. The assignments to
  \<^verbatim>\<open>self.m\<close> and \<^verbatim>\<open>self.v\<close> take effect as soon as their right-hand sides are evaluated,
  so an exception raised later leaves them in place.
\<close>

definition update :: "'dev adam \<Rightarrow> tdict \<Rightarrow> tdict \<Rightarrow> (error + tdict) \<times> 'dev adam" where
  "update s params g =
     (case decayed_g s params g of
        Inl e \<Rightarrow> (Inl e, s)
      | Inr g' \<Rightarrow>
     (case next_m s g' of
        Inl e \<Rightarrow> (Inl e, s)
      | Inr m' \<Rightarrow> let s1 = s\<lparr>self_m := m'\<rparr> in
     (case next_v s1 g' of
        Inl e \<Rightarrow> (Inl e, s1)
      | Inr v' \<Rightarrow> let s2 = s1\<lparr>self_v := v'\<rparr> in
     (case mhat_of s2 g' of
        Inl e \<Rightarrow> (Inl e, s2)
      | Inr mhat \<Rightarrow>
     (case vhat_of s2 g' of
        Inl e \<Rightarrow> (Inl e, s2)
      | Inr vhat \<Rightarrow> (next_params s2 params mhat vhat, s2))))))"

text \<open>\<^verbatim>\<open>Adam.reset\<close> and \<^verbatim>\<open>Adam.step\<close>.\<close>

definition reset :: "'dev adam \<Rightarrow> tdict \<Rightarrow> 'dev adam" where
  "reset s params = s\<lparr>self_m := zeros_dict params, self_v := zeros_dict params, self_i := 0\<rparr>"

definition step :: "'dev adam \<Rightarrow> 'dev adam" where
  "step s = s\<lparr>self_i := self_i s + 1\<rparr>"

section \<open>\<^verbatim>\<open>src/model.py\<close>: the class \<^verbatim>\<open>Adam\<close> on an explicit store\<close>

text \<open>
  The definitions above pass dictionaries and tensors by value, which cannot tell an
  operation that builds a new tensor from one that overwrites its operand. The methods
  \<^verbatim>\<open>update\<close> and \<^verbatim>\<open>step\<close> are therefore embedded a second time with Python's objects
  made explicit. The store is the list of the objects allocated so far and an address is
  a position in it. A dictionary holds the addresses of its tensors; the instance holds
  in \<^verbatim>\<open>self.m\<close> and \<^verbatim>\<open>self.v\<close> (the fields \<open>a_m\<close> and \<open>a_v\<close>) the addresses of two
  dictionaries; floats and integers are immediate values. A variable of the source is
  an address.
\<close>

record 'dev adam_obj =
  a_learning_rate :: real
  a_b1 :: real
  a_b2 :: real
  a_eps :: real
  a_device :: 'dev
  a_weight_decay :: real
  a_scheduler :: "(int \<Rightarrow> real \<Rightarrow> error + real) option"
  a_m :: nat
  a_v :: nat
  a_i :: nat

text \<open>The three kinds of objects that \<^verbatim>\<open>update\<close> and \<^verbatim>\<open>step\<close> meet.\<close>

datatype 'dev obj = TensorObj tensor | DictObj "(string \<times> nat) list" | AdamObj "'dev adam_obj"

text \<open>
  A computation takes the store and returns its outcome, a value or the exception that
  escapes, with the store as it leaves it. \<open>bind_st\<close> runs \<open>p\<close> and then \<open>f\<close> on its value;
  an exception of \<open>p\<close> skips \<open>f\<close> and keeps the store that \<open>p\<close> left.
\<close>

type_synonym ('dev, 'a) prog = "'dev obj list \<Rightarrow> (error + 'a) \<times> 'dev obj list"

definition bind_st :: "('dev, 'a) prog \<Rightarrow> ('a \<Rightarrow> ('dev, 'b) prog) \<Rightarrow> ('dev, 'b) prog" where
  "bind_st p f st = (case p st of (Inl e, st') \<Rightarrow> (Inl e, st') | (Inr x, st') \<Rightarrow> f x st')"

definition lift_st :: "error + 'a \<Rightarrow> ('dev, 'a) prog" where
  "lift_st r st = (r, st)"

text \<open>A new object is appended to the store; its address is returned.\<close>

definition alloc :: "'dev obj \<Rightarrow> ('dev, nat) prog" where
  "alloc ob st = (Inr (length st), st @ [ob])"

text \<open>
  Reading the object at an address as a tensor, as a dictionary or as the instance. An
  operand of another kind raises \<^verbatim>\<open>TypeError\<close> (\<^verbatim>\<open>AttributeError\<close> for an attribute of
  something that is not the instance). Reading leaves the store as it is.
\<close>

definition tensor_at :: "nat \<Rightarrow> ('dev, tensor) prog" where
  "tensor_at a st =
     (if a < length st
      then (case st ! a of TensorObj t \<Rightarrow> (Inr t, st) | _ \<Rightarrow> (Inl TypeError, st))
      else (Inl TypeError, st))"

definition dict_at :: "nat \<Rightarrow> ('dev, (string \<times> nat) list) prog" where
  "dict_at a st =
     (if a < length st
      then (case st ! a of DictObj d \<Rightarrow> (Inr d, st) | _ \<Rightarrow> (Inl TypeError, st))
      else (Inl TypeError, st))"

definition self_at :: "nat \<Rightarrow> ('dev, 'dev adam_obj) prog" where
  "self_at a st =
     (if a < length st
      then (case st ! a of AdamObj s \<Rightarrow> (Inr s, st) | _ \<Rightarrow> (Inl AttributeError, st))
      else (Inl AttributeError, st))"

text \<open>
  An attribute assignment \<^verbatim>\<open>self.x = e\<close>: the one operation of the two methods that
  overwrites an object, the instance at its address.
\<close>

definition set_attr :: "nat \<Rightarrow> ('dev adam_obj \<Rightarrow> 'dev adam_obj) \<Rightarrow> ('dev, unit) prog" where
  "set_attr a upd st =
     (if a < length st
      then (case st ! a of AdamObj s \<Rightarrow> (Inr (), st[a := AdamObj (upd s)])
            | _ \<Rightarrow> (Inl AttributeError, st))
      else (Inl AttributeError, st))"

text \<open>\<^verbatim>\<open>d[k]\<close>: the address stored under \<open>k\<close> in the dictionary at \<open>d\<close>, or \<^verbatim>\<open>KeyError\<close>.\<close>

definition item_at :: "nat \<Rightarrow> string \<Rightarrow> ('dev, nat) prog" where
  "item_at d k =
     bind_st (dict_at d) (\<lambda>items.
     lift_st (case map_of items k of None \<Rightarrow> Inl (KeyError k) | Some a \<Rightarrow> Inr a))"

text \<open>
  The torch operators \<^verbatim>\<open>+\<close>, \<^verbatim>\<open>-\<close>, \<^verbatim>\<open>*\<close>, \<^verbatim>\<open>/\<close> and \<^verbatim>\<open>torch.sqrt\<close> are out of place: they
  read their operands and allocate a tensor for the result. (The source uses no
  in-place operator such as \<^verbatim>\<open>+=\<close> on a tensor, no method ending in an underscore, and
  no \<^verbatim>\<open>out=\<close> argument.) The values are computed by the functions of the first embedding.
\<close>

definition add_at :: "nat \<Rightarrow> nat \<Rightarrow> ('dev, nat) prog" where
  "add_at a b =
     bind_st (tensor_at a) (\<lambda>x. bind_st (tensor_at b) (\<lambda>y.
     bind_st (lift_st (t_add x y)) (\<lambda>z. alloc (TensorObj z))))"

definition sub_at :: "nat \<Rightarrow> nat \<Rightarrow> ('dev, nat) prog" where
  "sub_at a b =
     bind_st (tensor_at a) (\<lambda>x. bind_st (tensor_at b) (\<lambda>y.
     bind_st (lift_st (t_sub x y)) (\<lambda>z. alloc (TensorObj z))))"

definition mul_at :: "nat \<Rightarrow> nat \<Rightarrow> ('dev, nat) prog" where
  "mul_at a b =
     bind_st (tensor_at a) (\<lambda>x. bind_st (tensor_at b) (\<lambda>y.
     bind_st (lift_st (t_mul x y)) (\<lambda>z. alloc (TensorObj z))))"

definition div_at :: "nat \<Rightarrow> nat \<Rightarrow> ('dev, nat) prog" where
  "div_at a b =
     bind_st (tensor_at a) (\<lambda>x. bind_st (tensor_at b) (\<lambda>y.
     bind_st (lift_st (t_div x y)) (\<lambda>z. alloc (TensorObj z))))"

definition smul_at :: "real \<Rightarrow> nat \<Rightarrow> ('dev, nat) prog" where
  "smul_at c a = bind_st (tensor_at a) (\<lambda>x. alloc (TensorObj (s_mul c x)))"

definition sdiv_at :: "nat \<Rightarrow> real \<Rightarrow> ('dev, nat) prog" where
  "sdiv_at a c = bind_st (tensor_at a) (\<lambda>x. alloc (TensorObj (s_div x c)))"

definition sadd_at :: "nat \<Rightarrow> real \<Rightarrow> ('dev, nat) prog" where
  "sadd_at a c = bind_st (tensor_at a) (\<lambda>x. alloc (TensorObj (s_add x c)))"

definition sqrt_at :: "nat \<Rightarrow> ('dev, nat) prog" where
  "sqrt_at a = bind_st (tensor_at a) (\<lambda>x. alloc (TensorObj (t_sqrt x)))"

text \<open>
  A comprehension \<^verbatim>\<open>{k: e(k) for k in d}\<close> runs through the keys of the dictionary at
  \<open>d\<close>, evaluates \<open>e\<close> at each key in turn on the store left by the previous key, and
  allocates a new dictionary for the result.
\<close>

fun comp_items :: "string list \<Rightarrow> (string \<Rightarrow> ('dev, nat) prog) \<Rightarrow> ('dev, (string \<times> nat) list) prog" where
  "comp_items [] e = lift_st (Inr [])"
| "comp_items (k # ks) e =
     bind_st (e k) (\<lambda>a. bind_st (comp_items ks e) (\<lambda>d. lift_st (Inr ((k, a) # d))))"

definition comp_at :: "nat \<Rightarrow> (string \<Rightarrow> ('dev, nat) prog) \<Rightarrow> ('dev, nat) prog" where
  "comp_at d e =
     bind_st (dict_at d) (\<lambda>items.
     bind_st (comp_items (map fst items) e) (\<lambda>new_items.
     alloc (DictObj new_items)))"

text \<open>The property \<^verbatim>\<open>scheduled_lr\<close>, read from the instance at \<open>self\<close>.\<close>

definition scheduled_lr_at :: "nat \<Rightarrow> ('dev, real) prog" where
  "scheduled_lr_at self =
     bind_st (self_at self) (\<lambda>s.
     lift_st (case a_scheduler s of
        Some f \<Rightarrow> f (int (a_i s)) (a_learning_rate s)
      | None \<Rightarrow> Inr (a_learning_rate s)))"

text \<open>
  The six lines of \<^verbatim>\<open>Adam.update\<close>, with the operands of every expression evaluated
  from left to right.
  Line 41: \<^verbatim>\<open>g = {v: g[v]+self.weight_decay*params[v] for v in g}\<close>.
\<close>

definition decayed_g_at :: "nat \<Rightarrow> nat \<Rightarrow> nat \<Rightarrow> ('dev, nat) prog" where
  "decayed_g_at self params g =
     comp_at g (\<lambda>k.
       bind_st (item_at g k) (\<lambda>gk.
       bind_st (self_at self) (\<lambda>s.
       bind_st (item_at params k) (\<lambda>pk.
       bind_st (smul_at (a_weight_decay s) pk) (\<lambda>t.
       add_at gk t)))))"

text \<open>Line 42: \<^verbatim>\<open>self.m = {v: (1-self.b1)*g[v]+self.b1*self.m[v] for v in g}\<close>.\<close>

definition next_m_at :: "nat \<Rightarrow> nat \<Rightarrow> ('dev, nat) prog" where
  "next_m_at self g =
     comp_at g (\<lambda>k.
       bind_st (self_at self) (\<lambda>s.
       bind_st (item_at g k) (\<lambda>gk.
       bind_st (smul_at (1 - a_b1 s) gk) (\<lambda>t1.
       bind_st (item_at (a_m s) k) (\<lambda>mk.
       bind_st (smul_at (a_b1 s) mk) (\<lambda>t2.
       add_at t1 t2))))))"

text \<open>Line 43: \<^verbatim>\<open>self.v = {k: (1-self.b2)*g[k]*g[k]+self.b2*self.v[k] for k in g}\<close>.\<close>

definition next_v_at :: "nat \<Rightarrow> nat \<Rightarrow> ('dev, nat) prog" where
  "next_v_at self g =
     comp_at g (\<lambda>k.
       bind_st (self_at self) (\<lambda>s.
       bind_st (item_at g k) (\<lambda>gk.
       bind_st (smul_at (1 - a_b2 s) gk) (\<lambda>t1.
       bind_st (item_at g k) (\<lambda>gk'.
       bind_st (mul_at t1 gk') (\<lambda>sq.
       bind_st (item_at (a_v s) k) (\<lambda>vk.
       bind_st (smul_at (a_b2 s) vk) (\<lambda>t2.
       add_at sq t2))))))))"

text \<open>Line 44: \<^verbatim>\<open>mhat = {v: self.m[v]/(1.-self.b1**(self.i+1)) for v in g}\<close>.\<close>

definition mhat_at :: "nat \<Rightarrow> nat \<Rightarrow> ('dev, nat) prog" where
  "mhat_at self g =
     comp_at g (\<lambda>k.
       bind_st (self_at self) (\<lambda>s.
       bind_st (item_at (a_m s) k) (\<lambda>mk.
       sdiv_at mk (1 - a_b1 s ^ (a_i s + 1)))))"

text \<open>Line 45: \<^verbatim>\<open>vhat = {k: self.v[k]/(1.-self.b2**(self.i+1)) for k in g}\<close>.\<close>

definition vhat_at :: "nat \<Rightarrow> nat \<Rightarrow> ('dev, nat) prog" where
  "vhat_at self g =
     comp_at g (\<lambda>k.
       bind_st (self_at self) (\<lambda>s.
       bind_st (item_at (a_v s) k) (\<lambda>vk.
       sdiv_at vk (1 - a_b2 s ^ (a_i s + 1)))))"

text \<open>
  Line 46: \<^verbatim>\<open>return {v: params[v]-self.scheduled_lr*mhat[v]/(torch.sqrt(vhat[v])+self.eps) for v in params}\<close>.
\<close>

definition next_params_at :: "nat \<Rightarrow> nat \<Rightarrow> nat \<Rightarrow> nat \<Rightarrow> ('dev, nat) prog" where
  "next_params_at self params mhat vhat =
     comp_at params (\<lambda>k.
       bind_st (item_at params k) (\<lambda>pk.
       bind_st (scheduled_lr_at self) (\<lambda>lr.
       bind_st (item_at mhat k) (\<lambda>mh.
       bind_st (smul_at lr mh) (\<lambda>t1.
       bind_st (item_at vhat k) (\<lambda>vh.
       bind_st (sqrt_at vh) (\<lambda>t2.
       bind_st (self_at self) (\<lambda>s.
       bind_st (sadd_at t2 (a_eps s)) (\<lambda>t3.
       bind_st (div_at t1 t3) (\<lambda>q.
       sub_at pk q))))))))))"

text \<open>
  \<^verbatim>\<open>Adam.update\<close> for the instance at \<open>self\<close> and the dictionaries at \<open>params\<close> and
  \<open>g\<close>. The local names \<^verbatim>\<open>g\<close>, \<^verbatim>\<open>mhat\<close> and \<^verbatim>\<open>vhat\<close> are bound to the addresses of the
  new dictionaries; the two assignments to \<^verbatim>\<open>self.m\<close> and \<^verbatim>\<open>self.v\<close> store an address
  in the instance. The result is the address of the returned dictionary.
\<close>

definition update_at :: "nat \<Rightarrow> nat \<Rightarrow> nat \<Rightarrow> ('dev, nat) prog" where
  "update_at self params g =
     bind_st (decayed_g_at self params g) (\<lambda>g'.
     bind_st (next_m_at self g') (\<lambda>m'.
     bind_st (set_attr self (\<lambda>s. s\<lparr>a_m := m'\<rparr>)) (\<lambda>_.
     bind_st (next_v_at self g') (\<lambda>v'.
     bind_st (set_attr self (\<lambda>s. s\<lparr>a_v := v'\<rparr>)) (\<lambda>_.
     bind_st (mhat_at self g') (\<lambda>mhat.
     bind_st (vhat_at self g') (\<lambda>vhat.
     next_params_at self params mhat vhat)))))))"

text \<open>\<^verbatim>\<open>Adam.step\<close>: \<^verbatim>\<open>self.i += 1\<close>.\<close>

definition step_at :: "nat \<Rightarrow> ('dev, unit) prog" where
  "step_at self =
     bind_st (self_at self) (\<lambda>s. set_attr self (\<lambda>s'. s'\<lparr>a_i := a_i s + 1\<rparr>))"

section \<open>\<^verbatim>\<open>src/utils.py\<close>: matrices\<close>

text \<open>
  A two-dimensional tensor is its shape and its entries. Every operation below builds
  its result with \<open>tabulate\<close>, which fixes the entries outside the shape to 0, so two
  results with the same shape and the same entries inside it are equal.
\<close>

datatype mat = Mat (nrows: nat) (ncols: nat) (ent: "nat \<Rightarrow> nat \<Rightarrow> real")

definition tabulate :: "nat \<Rightarrow> nat \<Rightarrow> (nat \<Rightarrow> nat \<Rightarrow> real) \<Rightarrow> mat" where
  "tabulate n m f = Mat n m (\<lambda>i j. if i < n \<and> j < m then f i j else 0)"

text \<open>
  \<^verbatim>\<open>A @ B\<close>: the matrix product; torch raises \<^verbatim>\<open>RuntimeError\<close> unless the number of
  columns of \<open>A\<close> is the number of rows of \<open>B\<close>.
\<close>

definition matmul :: "mat \<Rightarrow> mat \<Rightarrow> error + mat" where
  "matmul A B =
     (if ncols A = nrows B
      then Inr (tabulate (nrows A) (ncols B) (\<lambda>i j. \<Sum>k<ncols A. ent A i k * ent B k j))
      else Inl RuntimeError)"

text \<open>\<^verbatim>\<open>M.T\<close>, \<^verbatim>\<open>torch.diag(v)\<close> for a one-dimensional \<open>v\<close>, and \<^verbatim>\<open>torch.eye(n)\<close>.\<close>

definition transpose_mat :: "mat \<Rightarrow> mat" where
  "transpose_mat A = tabulate (ncols A) (nrows A) (\<lambda>i j. ent A j i)"

definition diag :: "real list \<Rightarrow> mat" where
  "diag v = tabulate (length v) (length v) (\<lambda>i j. if i = j then v ! i else 0)"

definition eye :: "nat \<Rightarrow> mat" where
  "eye n = tabulate n n (\<lambda>i j. if i = j then 1 else 0)"

text \<open>
  \<^verbatim>\<open>A + B\<close> and \<^verbatim>\<open>A - B\<close> on two matrices: entry by entry, where torch stretches a
  dimension of size 1 to the size of the other operand's and raises \<^verbatim>\<open>RuntimeError\<close>
  for two sizes that differ otherwise.
\<close>

definition bdim :: "nat \<Rightarrow> nat \<Rightarrow> nat option" where
  "bdim a b = (if a = b then Some a else if a = 1 then Some b else if b = 1 then Some a else None)"

definition bidx :: "nat \<Rightarrow> nat \<Rightarrow> nat" where
  "bidx a i = (if a = 1 then 0 else i)"

definition broadcast_mat :: "(real \<Rightarrow> real \<Rightarrow> real) \<Rightarrow> mat \<Rightarrow> mat \<Rightarrow> error + mat" where
  "broadcast_mat f A B =
     (case (bdim (nrows A) (nrows B), bdim (ncols A) (ncols B)) of
        (Some n, Some m) \<Rightarrow>
          Inr (tabulate n m (\<lambda>i j.
            f (ent A (bidx (nrows A) i) (bidx (ncols A) j))
              (ent B (bidx (nrows B) i) (bidx (ncols B) j))))
      | _ \<Rightarrow> Inl RuntimeError)"

definition mat_add :: "mat \<Rightarrow> mat \<Rightarrow> error + mat" where
  "mat_add = broadcast_mat (+)"

definition mat_sub :: "mat \<Rightarrow> mat \<Rightarrow> error + mat" where
  "mat_sub = broadcast_mat (-)"

text \<open>\<^verbatim>\<open>1./D\<close> for a one-dimensional tensor \<open>D\<close>.\<close>

definition reciprocal :: "real list \<Rightarrow> real list" where
  "reciprocal D = map (\<lambda>d. 1 / d) D"

section \<open>\<^verbatim>\<open>src/utils.py\<close>: \<^verbatim>\<open>MatrixInverse\<close>\<close>

text \<open>
  \<^verbatim>\<open>
  def MatrixInverse(M, D, device):
      _, Nh = M.shape
      diagD = torch.diag(1./D)
      I = torch.eye(Nh, dtype=torch.float32).to(device)
      return diagD - diagD@M@torch.linalg.inv(I+M.T@diagD@M)@M.T@diagD
  \<close>
  \<^verbatim>\<open>torch.linalg.inv\<close> belongs to the torch library; it is the parameter \<open>linalg_inv\<close>.
  The operator \<^verbatim>\<open>@\<close> associates to the left, and Python evaluates \<^verbatim>\<open>diagD@M\<close> before the
  argument of the inversion. The inner matrix \<^verbatim>\<open>I+M.T@diagD@M\<close> is \<open>inner_matrix\<close>.
  The entries of \<open>D\<close> are taken to be nonzero: for an entry 0 the float quotient
  \<^verbatim>\<open>1./D\<close> is an infinity, which has no counterpart among the reals.
\<close>

definition inner_matrix :: "mat \<Rightarrow> real list \<Rightarrow> error + mat" where
  "inner_matrix M D =
     (let Nh = ncols M; diagD = diag (reciprocal D); I = eye Nh in
      bind (matmul (transpose_mat M) diagD) (\<lambda>t2.
      bind (matmul t2 M) (\<lambda>t3.
      mat_add I t3)))"

definition MatrixInverse :: "(mat \<Rightarrow> error + mat) \<Rightarrow> mat \<Rightarrow> real list \<Rightarrow> 'dev \<Rightarrow> error + mat" where
  "MatrixInverse linalg_inv M D dev =
     (let diagD = diag (reciprocal D) in
      bind (matmul diagD M) (\<lambda>t1.
      bind (inner_matrix M D) (\<lambda>inner.
      bind (linalg_inv inner) (\<lambda>B.
      bind (matmul t1 B) (\<lambda>t4.
      bind (matmul t4 (transpose_mat M)) (\<lambda>t5.
      bind (matmul t5 diagD) (\<lambda>t6.
      mat_sub diagD t6)))))))"

section \<open>\<^verbatim>\<open>src/utils.py\<close>: \<^verbatim>\<open>MatrixLogDet\<close>\<close>

text \<open>
  The result of \<^verbatim>\<open>torch.log\<close> is a float that may be one of the special values:
  the logarithm of 0 is \<open>-inf\<close> and the logarithm of a negative number is \<open>nan\<close>, and
  neither raises. Addition of such values follows IEEE 754.
\<close>

datatype fl = Finite real | PosInf | NegInf | NaN

definition torch_log :: "real \<Rightarrow> fl" where
  "torch_log x = (if 0 < x then Finite (ln x) else if x = 0 then NegInf else NaN)"

fun fl_add :: "fl \<Rightarrow> fl \<Rightarrow> fl" where
  "fl_add NaN _ = NaN"
| "fl_add _ NaN = NaN"
| "fl_add PosInf NegInf = NaN"
| "fl_add NegInf PosInf = NaN"
| "fl_add PosInf _ = PosInf"
| "fl_add _ PosInf = PosInf"
| "fl_add NegInf _ = NegInf"
| "fl_add _ NegInf = NegInf"
| "fl_add (Finite x) (Finite y) = Finite (x + y)"

definition torch_sum :: "fl list \<Rightarrow> fl" where
  "torch_sum xs = foldr fl_add xs (Finite 0)"

text \<open>
  \<^verbatim>\<open>
  def MatrixLogDet(M, D, device):
      _, Nh = M.shape
      diagD = torch.diag(1./D)
      I = torch.eye(Nh, dtype=torch.float32).to(device)
      return torch.sum(torch.log(D)) + torch.log(torch.linalg.det(I+M.T@diagD@M))
  \<close>
  \<^verbatim>\<open>torch.linalg.det\<close> is the parameter \<open>linalg_det\<close>.
\<close>

definition MatrixLogDet :: "(mat \<Rightarrow> error + real) \<Rightarrow> mat \<Rightarrow> real list \<Rightarrow> 'dev \<Rightarrow> error + fl" where
  "MatrixLogDet linalg_det M D dev =
     (let s = torch_sum (map torch_log D) in
      bind (inner_matrix M D) (\<lambda>inner.
      bind (linalg_det inner) (\<lambda>d.
      Inr (fl_add s (torch_log d)))))"

section \<open>The determinant\<close>

text \<open>
  The determinant of the leading \<open>n \<times> n\<close> block of a table of entries, by expansion
  along the first column; \<open>skip i\<close> renumbers the indices when index \<open>i\<close> is removed.
  \<open>exact_det\<close> is \<^verbatim>\<open>torch.linalg.det\<close> in exact arithmetic: the determinant of a square
  matrix, and \<^verbatim>\<open>RuntimeError\<close> for a matrix that is not square.
\<close>

definition skip :: "nat \<Rightarrow> nat \<Rightarrow> nat" where
  "skip i r = (if r < i then r else Suc r)"

definition minor :: "nat \<Rightarrow> nat \<Rightarrow> (nat \<Rightarrow> nat \<Rightarrow> real) \<Rightarrow> nat \<Rightarrow> nat \<Rightarrow> real" where
  "minor i j A = (\<lambda>r c. A (skip i r) (skip j c))"

fun det :: "nat \<Rightarrow> (nat \<Rightarrow> nat \<Rightarrow> real) \<Rightarrow> real" where
  "det 0 A = 1"
| "det (Suc n) A = (\<Sum>i<Suc n. (- 1) ^ i * A i 0 * det n (minor i 0 A))"

definition exact_det :: "mat \<Rightarrow> error + real" where
  "exact_det A = (if nrows A = ncols A then Inr (det (nrows A) (ent A)) else Inl RuntimeError)"

section \<open>\<^verbatim>\<open>src/utils.py\<close>: \<^verbatim>\<open>MatrixInverse\<close> with the rounding of its operations\<close>

text \<open>
  The tensors of \<^verbatim>\<open>MatrixInverse\<close> are \<^verbatim>\<open>float32\<close>: every arithmetic operation returns its
  exact result rounded to the nearest \<^verbatim>\<open>float32\<close> value. \<open>round32\<close> is that rounding
  (IEEE 754 binary32, round to nearest, ties to even): a value with \<open>2\<^sup>e \<le> |x| < 2\<^sup>e\<^sup>+\<^sup>1\<close>
  is rounded to a multiple of \<open>2\<^sup>e\<^sup>-\<^sup>2\<^sup>3\<close>, with \<open>e\<close> no lower than \<open>-126\<close> (below, the
  spacing is that of the subnormal numbers). \<open>find_exp\<close> looks for \<open>e\<close> from 127 downwards.
  Overflow to an infinity (\<open>|x| \<ge> 2\<^sup>1\<^sup>2\<^sup>8\<close>) has no counterpart among the reals and is not
  represented.
\<close>

definition round_even :: "real \<Rightarrow> int" where
  "round_even x =
     (let n = \<lfloor>x\<rfloor>; f = x - of_int n in
      if f < 1/2 then n else if 1/2 < f then n + 1 else if even n then n else n + 1)"

fun find_exp :: "nat \<Rightarrow> int \<Rightarrow> real \<Rightarrow> int" where
  "find_exp 0 e x = e"
| "find_exp (Suc n) e x = (if 2 powi e \<le> x then e else find_exp n (e - 1) x)"

definition exponent32 :: "real \<Rightarrow> int" where
  "exponent32 x = find_exp 253 127 \<bar>x\<bar>"

definition round32 :: "real \<Rightarrow> real" where
  "round32 x = (let u = 2 powi (exponent32 x - 23) in of_int (round_even (x / u)) * u)"

text \<open>
  The operations of \<^verbatim>\<open>MatrixInverse\<close> once more, with a rounding function \<open>rnd\<close> applied
  to the result of every multiplication, addition, subtraction and division. With
  \<open>rnd = round32\<close> this is the \<^verbatim>\<open>float32\<close> computation; with the identity for \<open>rnd\<close> it is
  the computation on the reals of the definitions above. A product \<^verbatim>\<open>A @ B\<close> adds up
  its terms in the order of the index; the library may add them up in another order,
  which makes no difference for a single term.
\<close>

definition matmul_rnd :: "(real \<Rightarrow> real) \<Rightarrow> mat \<Rightarrow> mat \<Rightarrow> error + mat" where
  "matmul_rnd rnd A B =
     (if ncols A = nrows B
      then Inr (tabulate (nrows A) (ncols B) (\<lambda>i j.
             foldl (\<lambda>acc k. rnd (acc + rnd (ent A i k * ent B k j))) 0 [0..<ncols A]))
      else Inl RuntimeError)"

definition mat_add_rnd :: "(real \<Rightarrow> real) \<Rightarrow> mat \<Rightarrow> mat \<Rightarrow> error + mat" where
  "mat_add_rnd rnd = broadcast_mat (\<lambda>x y. rnd (x + y))"

definition mat_sub_rnd :: "(real \<Rightarrow> real) \<Rightarrow> mat \<Rightarrow> mat \<Rightarrow> error + mat" where
  "mat_sub_rnd rnd = broadcast_mat (\<lambda>x y. rnd (x - y))"

definition reciprocal_rnd :: "(real \<Rightarrow> real) \<Rightarrow> real list \<Rightarrow> real list" where
  "reciprocal_rnd rnd D = map (\<lambda>d. rnd (1 / d)) D"

definition inner_matrix_rnd :: "(real \<Rightarrow> real) \<Rightarrow> mat \<Rightarrow> real list \<Rightarrow> error + mat" where
  "inner_matrix_rnd rnd M D =
     (let Nh = ncols M; diagD = diag (reciprocal_rnd rnd D); I = eye Nh in
      bind (matmul_rnd rnd (transpose_mat M) diagD) (\<lambda>t2.
      bind (matmul_rnd rnd t2 M) (\<lambda>t3.
      mat_add_rnd rnd I t3)))"

definition MatrixInverse_rnd ::
  "(real \<Rightarrow> real) \<Rightarrow> (mat \<Rightarrow> error + mat) \<Rightarrow> mat \<Rightarrow> real list \<Rightarrow> 'dev \<Rightarrow> error + mat" where
  "MatrixInverse_rnd rnd linalg_inv M D dev =
     (let diagD = diag (reciprocal_rnd rnd D) in
      bind (matmul_rnd rnd diagD M) (\<lambda>t1.
      bind (inner_matrix_rnd rnd M D) (\<lambda>inner.
      bind (linalg_inv inner) (\<lambda>B.
      bind (matmul_rnd rnd t1 B) (\<lambda>t4.
      bind (matmul_rnd rnd t4 (transpose_mat M)) (\<lambda>t5.
      bind (matmul_rnd rnd t5 diagD) (\<lambda>t6.
      mat_sub_rnd rnd diagD t6)))))))"

section \<open>\<^verbatim>\<open>src/utils.py\<close>: the multiplications of the matrix products\<close>

text \<open>
  \<^verbatim>\<open>A @ B\<close> on dense tensors of shapes \<open>(n, k)\<close> and \<open>(k, m)\<close> computes each of the \<open>n * m\<close>
  entries of the product as a sum of \<open>k\<close> products, as \<open>matmul\<close> does. \<^verbatim>\<open>torch.diag\<close> returns a
  dense \<open>Npix \<times> Npix\<close> tensor, so the products with \<^verbatim>\<open>diagD\<close> are dense products too. The
  functions below are \<open>inner_matrix\<close>, \<open>MatrixInverse\<close> and \<open>MatrixLogDet\<close> with the number of
  scalar multiplications of their products carried along; the work inside the two library
  calls is not counted.
\<close>

definition matmul_count :: "mat \<Rightarrow> mat \<Rightarrow> error + mat \<times> nat" where
  "matmul_count A B = bind (matmul A B) (\<lambda>C. Inr (C, nrows A * ncols A * ncols B))"

definition inner_matrix_count :: "mat \<Rightarrow> real list \<Rightarrow> error + mat \<times> nat" where
  "inner_matrix_count M D =
     (let Nh = ncols M; diagD = diag (reciprocal D); I = eye Nh in
      bind (matmul_count (transpose_mat M) diagD) (\<lambda>(t2, n2).
      bind (matmul_count t2 M) (\<lambda>(t3, n3).
      bind (mat_add I t3) (\<lambda>inner. Inr (inner, n2 + n3)))))"

definition MatrixInverse_count ::
  "(mat \<Rightarrow> error + mat) \<Rightarrow> mat \<Rightarrow> real list \<Rightarrow> 'dev \<Rightarrow> error + mat \<times> nat" where
  "MatrixInverse_count linalg_inv M D dev =
     (let diagD = diag (reciprocal D) in
      bind (matmul_count diagD M) (\<lambda>(t1, n1).
      bind (inner_matrix_count M D) (\<lambda>(inner, n2).
      bind (linalg_inv inner) (\<lambda>B.
      bind (matmul_count t1 B) (\<lambda>(t4, n4).
      bind (matmul_count t4 (transpose_mat M)) (\<lambda>(t5, n5).
      bind (matmul_count t5 diagD) (\<lambda>(t6, n6).
      bind (mat_sub diagD t6) (\<lambda>R. Inr (R, n1 + n2 + n4 + n5 + n6)))))))))"

definition MatrixLogDet_count ::
  "(mat \<Rightarrow> error + real) \<Rightarrow> mat \<Rightarrow> real list \<Rightarrow> 'dev \<Rightarrow> error + fl \<times> nat" where
  "MatrixLogDet_count linalg_det M D dev =
     (let s = torch_sum (map torch_log D) in
      bind (inner_matrix_count M D) (\<lambda>(inner, n).
      bind (linalg_det inner) (\<lambda>d.
      Inr (fl_add s (torch_log d), n))))"

section \<open>Specification-side definitions for the optimizer\<close>

text \<open>
  The shape of the tensor stored under a key, if any. \<open>fits d d'\<close>: every key of \<open>d\<close>
  is a key of \<open>d'\<close> and holds a tensor of the same shape there. \<open>compatible d d'\<close>: the
  two dictionaries have the same key set and the same shapes. \<open>agree d d'\<close>: the tensors
  under the keys that \<open>d\<close> and \<open>d'\<close> share have the same shape.
\<close>

definition shape_of :: "tdict \<Rightarrow> string \<Rightarrow> nat option" where
  "shape_of d k = map_option length (map_of d k)"

definition fits :: "tdict \<Rightarrow> tdict \<Rightarrow> bool" where
  "fits d d' \<longleftrightarrow> (\<forall>k\<in>set (keys d). shape_of d' k = shape_of d k)"

definition compatible :: "tdict \<Rightarrow> tdict \<Rightarrow> bool" where
  "compatible d d' \<longleftrightarrow> set (keys d) = set (keys d') \<and> fits d d'"

definition agree :: "tdict \<Rightarrow> tdict \<Rightarrow> bool" where
  "agree d d' \<longleftrightarrow>
     (\<forall>k\<in>set (keys d). k \<in> set (keys d') \<longrightarrow> shape_of d' k = shape_of d k)"

text \<open>
  The update rule in the words of the specification, for the entry \<open>j\<close> of the tensors
  \<open>pk\<close> (parameter), \<open>gk\<close> (gradient), \<open>mk\<close> and \<open>vk\<close> (stored moments) of one key:
  weight decay, the two moments, their bias corrections with the current counter, and
  the new parameter for an effective learning rate \<open>lr\<close>.
\<close>

definition spec_g :: "'dev adam \<Rightarrow> tensor \<Rightarrow> tensor \<Rightarrow> nat \<Rightarrow> real" where
  "spec_g s pk gk j = gk ! j + weight_decay s * pk ! j"

definition spec_m :: "'dev adam \<Rightarrow> tensor \<Rightarrow> tensor \<Rightarrow> tensor \<Rightarrow> nat \<Rightarrow> real" where
  "spec_m s pk gk mk j = (1 - b1 s) * spec_g s pk gk j + b1 s * mk ! j"

definition spec_v :: "'dev adam \<Rightarrow> tensor \<Rightarrow> tensor \<Rightarrow> tensor \<Rightarrow> nat \<Rightarrow> real" where
  "spec_v s pk gk vk j = (1 - b2 s) * (spec_g s pk gk j)\<^sup>2 + b2 s * vk ! j"

definition spec_mhat :: "'dev adam \<Rightarrow> tensor \<Rightarrow> tensor \<Rightarrow> tensor \<Rightarrow> nat \<Rightarrow> real" where
  "spec_mhat s pk gk mk j = spec_m s pk gk mk j / (1 - b1 s ^ (self_i s + 1))"

definition spec_vhat :: "'dev adam \<Rightarrow> tensor \<Rightarrow> tensor \<Rightarrow> tensor \<Rightarrow> nat \<Rightarrow> real" where
  "spec_vhat s pk gk vk j = spec_v s pk gk vk j / (1 - b2 s ^ (self_i s + 1))"

definition spec_param ::
  "'dev adam \<Rightarrow> real \<Rightarrow> tensor \<Rightarrow> tensor \<Rightarrow> tensor \<Rightarrow> tensor \<Rightarrow> nat \<Rightarrow> real" where
  "spec_param s lr pk gk mk vk j =
     pk ! j - lr * spec_mhat s pk gk mk j / (sqrt (spec_vhat s pk gk vk j) + eps s)"

text \<open>
  The effective learning rate of the specification: the scheduler's value at the current
  counter when a scheduler is configured, the base rate otherwise.
\<close>

definition spec_lr :: "'dev adam \<Rightarrow> real \<Rightarrow> bool" where
  "spec_lr s lr \<longleftrightarrow>
     (case scheduler s of
        Some f \<Rightarrow> f (int (self_i s)) (learning_rate s) = Inr lr
      | None \<Rightarrow> lr = learning_rate s)"

text \<open>Sample inputs: an optimizer in its tenth iteration and a parameter dictionary.\<close>

definition sample_adam :: "unit adam" where
  "sample_adam =
     \<lparr> learning_rate = 1/10, b1 = 1/2, b2 = 1/2, eps = 1, device = (), weight_decay = 0,
       scheduler = Some (step_scheduler (1/2) 10),
       self_m = [(''a'', [5, 5]), (''b'', [6])], self_v = [(''a'', [7, 7]), (''b'', [8])],
       self_i = 9 \<rparr>"

definition sample_params :: tdict where
  "sample_params = [(''a'', [1, 2]), (''b'', [3])]"

definition sample_g :: tdict where
  "sample_g = [(''b'', [4]), (''a'', [2, 0])]"

section \<open>Specification-side definitions for the structured covariance\<close>

text \<open>
  The matrix \<open>\<Sigma> = M\<cdot>M\<^sup>T + diag(D)\<close> of the specification, in dense form.
\<close>

definition Sigma :: "mat \<Rightarrow> real list \<Rightarrow> error + mat" where
  "Sigma M D = bind (matmul M (transpose_mat M)) (\<lambda>G. mat_add G (diag D))"

text \<open>
  \<open>is_inverse B A\<close>: \<open>B\<close> has the shape of the square matrix \<open>A\<close> and both products are
  the identity. The contract of \<^verbatim>\<open>torch.linalg.inv\<close> at a matrix \<open>A\<close>: the call returns
  an inverse of \<open>A\<close>, or it raises \<^verbatim>\<open>LinAlgError\<close> and \<open>A\<close> has no inverse.
\<close>

definition is_inverse :: "mat \<Rightarrow> mat \<Rightarrow> bool" where
  "is_inverse B A \<longleftrightarrow>
     nrows B = nrows A \<and> ncols B = nrows A
     \<and> matmul B A = Inr (eye (nrows A)) \<and> matmul A B = Inr (eye (nrows A))"

definition inv_contract :: "(mat \<Rightarrow> error + mat) \<Rightarrow> mat \<Rightarrow> bool" where
  "inv_contract linalg_inv A \<longleftrightarrow>
     (case linalg_inv A of
        Inr B \<Rightarrow> is_inverse B A
      | Inl e \<Rightarrow> e = LinAlgError \<and> \<not> (\<exists>B. is_inverse B A))"

text \<open>
  The entries of the inner matrix \<open>I + M\<^sup>T\<cdot>diag(1/D)\<cdot>M\<close> for the first \<open>N\<close> rows of a
  table \<open>w\<close> and the weights \<open>c\<close>.
\<close>

definition inner_fun :: "(nat \<Rightarrow> nat \<Rightarrow> real) \<Rightarrow> (nat \<Rightarrow> real) \<Rightarrow> nat \<Rightarrow> nat \<Rightarrow> nat \<Rightarrow> real" where
  "inner_fun w c N a b = (if a = b then 1 else 0) + (\<Sum>p<N. w p a * c p * w p b)"

text \<open>
  The Woodbury expression \<open>Dinv - Dinv\<cdot>M\<cdot>B\<cdot>M\<^sup>T\<cdot>Dinv\<close> with \<open>Dinv = diag(1/D)\<close>, entry by
  entry, for a matrix \<open>B\<close> in the place of the inverted inner matrix.
\<close>

definition woodbury :: "mat \<Rightarrow> real list \<Rightarrow> mat \<Rightarrow> mat" where
  "woodbury M D B = tabulate (length D) (length D) (\<lambda>i j.
     (if i = j then 1 / D ! i else 0)
     - (\<Sum>a<ncols M. \<Sum>b<ncols M. (1 / D ! i * ent M i a) * ent B a b * (ent M j b * (1 / D ! j))))"

text \<open>
  Sample inputs: a \<open>2 \<times> 1\<close> factor, a positive diagonal, and the inversion of a
  \<open>1 \<times> 1\<close> matrix.
\<close>

definition sample_M :: mat where
  "sample_M = tabulate 2 1 (\<lambda>i j. if i = 0 then 1 else 2)"

definition sample_D :: "real list" where
  "sample_D = [1, 2]"

definition inv_1x1 :: "mat \<Rightarrow> error + mat" where
  "inv_1x1 A = (if ent A 0 0 = 0 then Inl LinAlgError else Inr (tabulate 1 1 (\<lambda>i j. 1 / ent A 0 0)))"

definition unit_M :: mat where
  "unit_M = tabulate 1 1 (\<lambda>i j. 1)"

text \<open>
  The dense \<open>\<Sigma>\<close> computed with rounding, the library inversion of a \<open>1 \<times> 1\<close> matrix
  with rounding (the rounded reciprocal of its entry), and the \<open>1 \<times> 1\<close> matrices with
  the entries 3000 and 4096.
\<close>

definition Sigma_rnd :: "(real \<Rightarrow> real) \<Rightarrow> mat \<Rightarrow> real list \<Rightarrow> error + mat" where
  "Sigma_rnd rnd M D = bind (matmul_rnd rnd M (transpose_mat M)) (\<lambda>G. mat_add_rnd rnd G (diag D))"

definition inv_1x1_rnd :: "(real \<Rightarrow> real) \<Rightarrow> mat \<Rightarrow> error + mat" where
  "inv_1x1_rnd rnd A =
     (if ent A 0 0 = 0 then Inl LinAlgError else Inr (tabulate 1 1 (\<lambda>i j. rnd (1 / ent A 0 0))))"

definition M3000 :: mat where
  "M3000 = tabulate 1 1 (\<lambda>i j. 3000)"

definition M4096 :: mat where
  "M4096 = tabulate 1 1 (\<lambda>i j. 4096)"

text \<open>
  The number of scalar multiplications of the six products of \<open>MatrixInverse\<close> and of the
  two products of \<open>MatrixLogDet\<close>, as functions of the shape.
\<close>

definition MatrixInverse_mults :: "nat \<Rightarrow> nat \<Rightarrow> nat" where
  "MatrixInverse_mults Npix Nh = Npix ^ 3 + 3 * Npix\<^sup>2 * Nh + 2 * Npix * Nh\<^sup>2"

definition MatrixLogDet_mults :: "nat \<Rightarrow> nat \<Rightarrow> nat" where
  "MatrixLogDet_mults Npix Nh = Npix\<^sup>2 * Nh + Npix * Nh\<^sup>2"

section \<open>Specification-side definitions for the store\<close>

text \<open>
  \<open>grows self st st'\<close>: the store \<open>st'\<close> has every object of \<open>st\<close> at its address,
  unchanged, except possibly the instance at \<open>self\<close>, which differs in the fields \<open>a_m\<close>
  and \<open>a_v\<close> at most. \<open>safe self p\<close>: the computation \<open>p\<close> takes every store to one that
  grows from it.
\<close>

definition grows :: "nat \<Rightarrow> 'dev obj list \<Rightarrow> 'dev obj list \<Rightarrow> bool" where
  "grows self st st' \<longleftrightarrow>
     length st \<le> length st'
     \<and> (\<forall>a<length st. a \<noteq> self \<longrightarrow> st' ! a = st ! a)
     \<and> (\<forall>s. self < length st \<and> st ! self = AdamObj s \<longrightarrow>
          (\<exists>s'. st' ! self = AdamObj s' \<and> s' = s\<lparr>a_m := a_m s', a_v := a_v s'\<rparr>))"

definition safe :: "nat \<Rightarrow> ('dev, 'a) prog \<Rightarrow> bool" where
  "safe self p \<longleftrightarrow> (\<forall>st. grows self st (snd (p st)))"

text \<open>
  \<open>fresh_tensor p\<close>: the address that \<open>p\<close> returns was allocated by \<open>p\<close> and holds a
  tensor. \<open>fresh_dict self p\<close>: the address that \<open>p\<close> returns was allocated by \<open>p\<close> and
  holds a dictionary of tensors that \<open>p\<close> allocated.
\<close>

definition fresh_tensor :: "('dev, nat) prog \<Rightarrow> bool" where
  "fresh_tensor p \<longleftrightarrow>
     (\<forall>st r st'. p st = (Inr r, st') \<longrightarrow>
        length st \<le> r \<and> r < length st' \<and> (\<exists>t. st' ! r = TensorObj t))"

definition fresh_items :: "'dev obj list \<Rightarrow> 'dev obj list \<Rightarrow> (string \<times> nat) list \<Rightarrow> bool" where
  "fresh_items st st' items \<longleftrightarrow>
     list_all (\<lambda>(k, b). length st \<le> b \<and> b < length st' \<and> (\<exists>t. st' ! b = TensorObj t)) items"

definition fresh_dict :: "nat \<Rightarrow> ('dev, nat) prog \<Rightarrow> bool" where
  "fresh_dict self p \<longleftrightarrow>
     (\<forall>st r st'. self < length st \<and> p st = (Inr r, st') \<longrightarrow>
        length st \<le> r \<and> r < length st'
        \<and> (\<exists>items. st' ! r = DictObj items \<and> fresh_items st st' items))"

text \<open>
  A sample store: the instance at address 0, the dictionary \<^verbatim>\<open>params\<close> at 1 and the
  dictionary \<^verbatim>\<open>g\<close> at 2, their tensors at 3 and 4, the two moment dictionaries at 5
  and 6 and their tensors at 7 and 8.
\<close>

definition sample_obj :: "unit adam_obj" where
  "sample_obj =
     \<lparr> a_learning_rate = 1/10, a_b1 = 1/2, a_b2 = 1/2, a_eps = 1, a_device = (),
       a_weight_decay = 0, a_scheduler = Some (step_scheduler (1/2) 10),
       a_m = 5, a_v = 6, a_i = 9 \<rparr>"

definition sample_store :: "unit obj list" where
  "sample_store =
     [AdamObj sample_obj, DictObj [(''a'', 3)], DictObj [(''a'', 4)],
      TensorObj [1, 2], TensorObj [2, 0],
      DictObj [(''a'', 7)], DictObj [(''a'', 8)], TensorObj [5, 5], TensorObj [7, 7]]"

section \<open>Auxiliary facts about dictionaries and the update\<close>

lemma bind_Inr [simp]: "bind (Inr x) f = f x"
  by (simp add: bind_def)

lemma bind_Inl [simp]: "bind (Inl e) f = Inl e"
  by (simp add: bind_def)

lemma dict_comp_total:
  "(\<And>k. k \<in> set ks \<Longrightarrow> e k = Inr (f k)) \<Longrightarrow> dict_comp ks e = Inr (map (\<lambda>k. (k, f k)) ks)"
  by (induction ks) simp_all

lemma dict_comp_first_error:
  "(\<And>k. k \<in> set pre \<Longrightarrow> \<exists>x. e k = Inr x) \<Longrightarrow> e k0 = Inl err
   \<Longrightarrow> dict_comp (pre @ k0 # post) e = Inl err"
proof (induction pre)
  case Nil
  then show ?case by simp
next
  case (Cons a pre)
  from Cons.prems(1) [of a] obtain x where "e a = Inr x" by auto
  moreover have "dict_comp (pre @ k0 # post) e = Inl err"
    using Cons by simp
  ultimately show ?case by simp
qed

lemma keys_tabulate [simp]: "keys (map (\<lambda>k. (k, f k)) ks) = ks"
  by (induction ks) (simp_all add: keys_def)

lemma map_of_tabulate: "map_of (map (\<lambda>k. (k, f k)) ks) k = (if k \<in> set ks then Some (f k) else None)"
  by (induction ks) simp_all

lemma lookup_tabulate: "k \<in> set ks \<Longrightarrow> lookup (map (\<lambda>k. (k, f k)) ks) k = Inr (f k)"
  by (simp add: lookup_def map_of_tabulate)

lemma lookup_absent: "k \<notin> set (keys d) \<Longrightarrow> lookup d k = Inl (KeyError k)"
proof -
  assume "k \<notin> set (keys d)"
  then have "map_of d k = None"
    by (simp add: keys_def map_of_eq_None_iff)
  then show ?thesis by (simp add: lookup_def)
qed

lemma lookup_present: "k \<in> set (keys d) \<Longrightarrow> lookup d k = Inr (the (map_of d k))"
  by (auto simp: lookup_def keys_def map_of_eq_None_iff split: option.splits)

lemma map_of_keys: "map_of d k = Some x \<Longrightarrow> k \<in> set (keys d)"
  by (force simp: keys_def dest: map_of_SomeD)

lemma broadcast2_same: "length xs = length ys \<Longrightarrow> broadcast2 f xs ys = Inr (map2 f xs ys)"
  by (simp add: broadcast2_def)

lemma fits_lookup:
  assumes "fits d d'" and "k \<in> set (keys d)"
  shows "\<exists>x y. map_of d k = Some x \<and> map_of d' k = Some y \<and> length y = length x
           \<and> lookup d k = Inr x \<and> lookup d' k = Inr y"
proof -
  from assms have sh: "shape_of d' k = shape_of d k"
    by (auto simp: fits_def)
  from assms(2) obtain x where x: "map_of d k = Some x"
    by (cases "map_of d k") (auto simp: keys_def map_of_eq_None_iff)
  with sh obtain y where y: "map_of d' k = Some y"
    by (cases "map_of d' k") (auto simp: shape_of_def)
  from sh x y have "length y = length x" by (simp add: shape_of_def)
  with x y show ?thesis by (simp add: lookup_def)
qed

lemma scheduled_lr_spec: "spec_lr s lr \<Longrightarrow> scheduled_lr s = Inr lr"
  by (auto simp: spec_lr_def scheduled_lr_def split: option.splits)

lemma update_stages:
  fixes s :: "'dev adam"
  assumes cg: "fits g params" and cm: "fits g (self_m s)" and cv: "fits g (self_v s)"
  defines "P \<equiv> \<lambda>k. the (map_of params k)" and "G \<equiv> \<lambda>k. the (map_of g k)"
    and "M \<equiv> \<lambda>k. the (map_of (self_m s) k)" and "V \<equiv> \<lambda>k. the (map_of (self_v s) k)"
  defines "M' \<equiv> \<lambda>k. map (spec_m s (P k) (G k) (M k)) [0..<length (G k)]"
    and "V' \<equiv> \<lambda>k. map (spec_v s (P k) (G k) (V k)) [0..<length (G k)]"
    and "MH \<equiv> \<lambda>k. map (spec_mhat s (P k) (G k) (M k)) [0..<length (G k)]"
    and "VH \<equiv> \<lambda>k. map (spec_vhat s (P k) (G k) (V k)) [0..<length (G k)]"
  defines "s2 \<equiv> s\<lparr>self_m := map (\<lambda>k. (k, M' k)) (keys g), self_v := map (\<lambda>k. (k, V' k)) (keys g)\<rparr>"
  shows "update s params g =
           (next_params s2 params (map (\<lambda>k. (k, MH k)) (keys g)) (map (\<lambda>k. (k, VH k)) (keys g)), s2)"
proof -
  have look: "lookup params k = Inr (P k) \<and> lookup g k = Inr (G k)
      \<and> lookup (self_m s) k = Inr (M k) \<and> lookup (self_v s) k = Inr (V k)
      \<and> length (P k) = length (G k) \<and> length (M k) = length (G k) \<and> length (V k) = length (G k)"
    if "k \<in> set (keys g)" for k
    using fits_lookup [OF cg that] fits_lookup [OF cm that] fits_lookup [OF cv that]
    by (auto simp: P_def G_def M_def V_def)
  define G' where "G' = (\<lambda>k. map (spec_g s (P k) (G k)) [0..<length (G k)])"
  define s1 where "s1 = s\<lparr>self_m := map (\<lambda>k. (k, M' k)) (keys g)\<rparr>"
  have s2: "s2 = s1\<lparr>self_v := map (\<lambda>k. (k, V' k)) (keys g)\<rparr>"
    by (simp add: s2_def s1_def)
  have 1: "decayed_g s params g = Inr (map (\<lambda>k. (k, G' k)) (keys g))"
    unfolding decayed_g_def
  proof (rule dict_comp_total)
    fix k assume k: "k \<in> set (keys g)"
    have "map2 (+) (G k) (s_mul (weight_decay s) (P k)) = G' k"
      using look [OF k] by (auto simp: G'_def s_mul_def spec_g_def intro!: nth_equalityI)
    then show "bind (lookup g k) (\<lambda>gk. bind (lookup params k)
        (\<lambda>pk. t_add gk (s_mul (weight_decay s) pk))) = Inr (G' k)"
      using look [OF k] by (simp add: t_add_def broadcast2_same s_mul_def)
  qed
  have 2: "next_m s (map (\<lambda>k. (k, G' k)) (keys g)) = Inr (map (\<lambda>k. (k, M' k)) (keys g))"
    unfolding next_m_def keys_tabulate
  proof (rule dict_comp_total)
    fix k assume k: "k \<in> set (keys g)"
    have "map2 (+) (s_mul (1 - b1 s) (G' k)) (s_mul (b1 s) (M k)) = M' k"
      using look [OF k] by (auto simp: G'_def M'_def s_mul_def spec_m_def intro!: nth_equalityI)
    then show "bind (lookup (map (\<lambda>k. (k, G' k)) (keys g)) k) (\<lambda>gk. bind (lookup (self_m s) k)
        (\<lambda>mk. t_add (s_mul (1 - b1 s) gk) (s_mul (b1 s) mk))) = Inr (M' k)"
      using look [OF k] k
      by (simp add: lookup_tabulate t_add_def broadcast2_same s_mul_def G'_def)
  qed
  have 3: "next_v s1 (map (\<lambda>k. (k, G' k)) (keys g)) = Inr (map (\<lambda>k. (k, V' k)) (keys g))"
    unfolding next_v_def keys_tabulate
  proof (rule dict_comp_total)
    fix k assume k: "k \<in> set (keys g)"
    have "map2 (+) (map2 (*) (s_mul (1 - b2 s) (G' k)) (G' k)) (s_mul (b2 s) (V k)) = V' k"
      using look [OF k]
      by (auto simp: G'_def V'_def s_mul_def spec_v_def power2_eq_square intro!: nth_equalityI)
    then show "bind (lookup (map (\<lambda>k. (k, G' k)) (keys g)) k) (\<lambda>gk.
        bind (t_mul (s_mul (1 - b2 s1) gk) gk) (\<lambda>sq. bind (lookup (self_v s1) k)
        (\<lambda>vk. t_add sq (s_mul (b2 s1) vk)))) = Inr (V' k)"
      using look [OF k] k
      by (simp add: lookup_tabulate t_add_def t_mul_def broadcast2_same s_mul_def G'_def s1_def)
  qed
  have 4: "mhat_of s2 (map (\<lambda>k. (k, G' k)) (keys g)) = Inr (map (\<lambda>k. (k, MH k)) (keys g))"
    unfolding mhat_of_def keys_tabulate
  proof (rule dict_comp_total)
    fix k assume k: "k \<in> set (keys g)"
    show "bind (lookup (self_m s2) k) (\<lambda>mk. Inr (s_div mk (1 - b1 s2 ^ (self_i s2 + 1))))
        = Inr (MH k)"
      using k
      by (simp add: s2_def lookup_tabulate s_div_def MH_def M'_def spec_mhat_def)
  qed
  have 5: "vhat_of s2 (map (\<lambda>k. (k, G' k)) (keys g)) = Inr (map (\<lambda>k. (k, VH k)) (keys g))"
    unfolding vhat_of_def keys_tabulate
  proof (rule dict_comp_total)
    fix k assume k: "k \<in> set (keys g)"
    show "bind (lookup (self_v s2) k) (\<lambda>vk. Inr (s_div vk (1 - b2 s2 ^ (self_i s2 + 1))))
        = Inr (VH k)"
      using k
      by (simp add: s2_def lookup_tabulate s_div_def VH_def V'_def spec_vhat_def)
  qed
  show ?thesis
    unfolding update_def 1 sum.case 2 Let_def s1_def [symmetric] 3 s2 [symmetric] 4 5
    by simp
qed

lemma next_params_entry:
  fixes s :: "'dev adam"
  assumes k: "k \<in> set ks" and p: "lookup params k = Inr pk" and len: "length pk = n k"
    and lr: "scheduled_lr s = Inr lr"
  shows "bind (lookup params k) (\<lambda>pk. bind (scheduled_lr s) (\<lambda>lr.
        bind (lookup (map (\<lambda>k. (k, map (mh k) [0..<n k])) ks) k) (\<lambda>mh.
        bind (lookup (map (\<lambda>k. (k, map (vh k) [0..<n k])) ks) k) (\<lambda>vh.
        bind (t_div (s_mul lr mh) (s_add (t_sqrt vh) (eps s))) (\<lambda>q. t_sub pk q)))))
      = Inr (map (\<lambda>j. pk ! j - lr * mh k j / (sqrt (vh k j) + eps s)) [0..<n k])"
proof -
  have "map2 (-) pk (map2 (/) (s_mul lr (map (mh k) [0..<n k]))
          (s_add (t_sqrt (map (vh k) [0..<n k])) (eps s)))
      = map (\<lambda>j. pk ! j - lr * mh k j / (sqrt (vh k j) + eps s)) [0..<n k]"
    using len by (auto simp: s_mul_def s_add_def t_sqrt_def intro!: nth_equalityI)
  then show ?thesis
    using k p len lr
    by (simp add: lookup_tabulate t_div_def t_sub_def broadcast2_same s_mul_def s_add_def
        t_sqrt_def o_def)
qed

lemma next_params_missing:
  fixes s :: "'dev adam"
  assumes k: "k \<notin> set ks" and p: "lookup params k = Inr pk" and lr: "scheduled_lr s = Inr lr"
  shows "bind (lookup params k) (\<lambda>pk. bind (scheduled_lr s) (\<lambda>lr.
        bind (lookup (map (\<lambda>k. (k, mh k)) ks) k) (\<lambda>mh.
        bind (lookup (map (\<lambda>k. (k, vh k)) ks) k) (\<lambda>vh.
        bind (t_div (s_mul lr mh) (s_add (t_sqrt vh) (eps s))) (\<lambda>q. t_sub pk q)))))
      = Inl (KeyError k)"
  using k p lr by (simp add: lookup_absent)

lemma find_split:
  assumes "find Q xs = Some x"
  shows "\<exists>pre post. xs = pre @ x # post \<and> (\<forall>y\<in>set pre. \<not> Q y) \<and> Q x"
  using assms
proof (induction xs)
  case Nil
  then show ?case by simp
next
  case (Cons a xs)
  show ?case
  proof (cases "Q a")
    case True
    with Cons.prems have "x = a" by simp
    with True have "a # xs = [] @ x # xs \<and> (\<forall>y\<in>set []. \<not> Q y) \<and> Q x" by simp
    then show ?thesis by blast
  next
    case False
    with Cons.prems have "find Q xs = Some x" by simp
    from Cons.IH [OF this] obtain pre post
      where "xs = pre @ x # post" "\<forall>y\<in>set pre. \<not> Q y" "Q x" by blast
    with False have "a # xs = (a # pre) @ x # post \<and> (\<forall>y\<in>set (a # pre). \<not> Q y) \<and> Q x"
      by simp
    then show ?thesis by blast
  qed
qed

lemma compatible_fits: "compatible a b \<Longrightarrow> compatible c b \<Longrightarrow> fits a c"
  by (auto simp: compatible_def fits_def)

lemma compatible_fits_self: "compatible a b \<Longrightarrow> fits a b"
  by (simp add: compatible_def)

lemma agree_lookup:
  assumes "agree d d'" and "k \<in> set (keys d)" and "k \<in> set (keys d')"
  shows "\<exists>x y. lookup d k = Inr x \<and> lookup d' k = Inr y \<and> length y = length x"
proof -
  from assms have sh: "shape_of d' k = shape_of d k"
    by (auto simp: agree_def)
  from assms(2) obtain x where x: "map_of d k = Some x"
    by (cases "map_of d k") (auto simp: keys_def map_of_eq_None_iff)
  with sh obtain y where y: "map_of d' k = Some y"
    by (cases "map_of d' k") (auto simp: shape_of_def)
  from sh x y have "length y = length x" by (simp add: shape_of_def)
  with x y show ?thesis by (simp add: lookup_def)
qed

lemma update_extra_key:
  fixes s :: "'dev adam"
  assumes ag: "agree g params"
    and k0: "find (\<lambda>k. k \<notin> set (keys params)) (keys g) = Some k0"
  shows "update s params g = (Inl (KeyError k0), s)"
proof -
  from find_split [OF k0] obtain pre post where sp: "keys g = pre @ k0 # post"
    and pre: "\<forall>y\<in>set pre. y \<in> set (keys params)" and miss: "k0 \<notin> set (keys params)"
    by auto
  have "decayed_g s params g = Inl (KeyError k0)"
    unfolding decayed_g_def sp
  proof (rule dict_comp_first_error)
    fix k assume k: "k \<in> set pre"
    then have "k \<in> set (keys g)" and "k \<in> set (keys params)"
      using sp pre by auto
    from agree_lookup [OF ag this] obtain x y
      where "lookup g k = Inr x" "lookup params k = Inr y" "length y = length x" by blast
    then show "\<exists>x. bind (lookup g k) (\<lambda>gk. bind (lookup params k)
        (\<lambda>pk. t_add gk (s_mul (weight_decay s) pk))) = Inr x"
      by (simp add: t_add_def broadcast2_same s_mul_def)
  next
    have "k0 \<in> set (keys g)" using sp by simp
    then obtain x where "lookup g k0 = Inr x"
      using lookup_present by blast
    then show "bind (lookup g k0) (\<lambda>gk. bind (lookup params k0)
        (\<lambda>pk. t_add gk (s_mul (weight_decay s) pk))) = Inl (KeyError k0)"
      using miss by (simp add: lookup_absent)
  qed
  then show ?thesis by (simp add: update_def)
qed

lemma update_omitted_key:
  fixes s :: "'dev adam"
  assumes fg: "fits g params" and fm: "fits g (self_m s)" and fv: "fits g (self_v s)"
    and lr: "spec_lr s lr"
    and k0: "find (\<lambda>k. k \<notin> set (keys g)) (keys params) = Some k0"
  shows "fst (update s params g) = Inl (KeyError k0)
    \<and> keys (self_m (snd (update s params g))) = keys g
    \<and> keys (self_v (snd (update s params g))) = keys g"
proof -
  define P where "P = (\<lambda>k. the (map_of params k))"
  define G where "G = (\<lambda>k. the (map_of g k))"
  define M where "M = (\<lambda>k. the (map_of (self_m s) k))"
  define V where "V = (\<lambda>k. the (map_of (self_v s) k))"
  define M' where "M' = (\<lambda>k. map (spec_m s (P k) (G k) (M k)) [0..<length (G k)])"
  define V' where "V' = (\<lambda>k. map (spec_v s (P k) (G k) (V k)) [0..<length (G k)])"
  define MH where "MH = (\<lambda>k. map (spec_mhat s (P k) (G k) (M k)) [0..<length (G k)])"
  define VH where "VH = (\<lambda>k. map (spec_vhat s (P k) (G k) (V k)) [0..<length (G k)])"
  define s2 where "s2 = s\<lparr>self_m := map (\<lambda>k. (k, M' k)) (keys g),
    self_v := map (\<lambda>k. (k, V' k)) (keys g)\<rparr>"
  have upd: "update s params g =
      (next_params s2 params (map (\<lambda>k. (k, MH k)) (keys g)) (map (\<lambda>k. (k, VH k)) (keys g)), s2)"
    using update_stages [OF fg fm fv]
    by (simp add: P_def G_def M_def V_def M'_def V'_def MH_def VH_def s2_def)
  have lr2: "scheduled_lr s2 = Inr lr"
    using scheduled_lr_spec [OF lr]
    by (auto simp: scheduled_lr_def s2_def split: option.splits)
  from find_split [OF k0] obtain pre post where sp: "keys params = pre @ k0 # post"
    and pre: "\<forall>y\<in>set pre. y \<in> set (keys g)" and miss: "k0 \<notin> set (keys g)"
    by auto
  have np: "next_params s2 params (map (\<lambda>k. (k, MH k)) (keys g)) (map (\<lambda>k. (k, VH k)) (keys g))
      = Inl (KeyError k0)"
    unfolding next_params_def sp
  proof (rule dict_comp_first_error)
    fix k assume "k \<in> set pre"
    then have kg: "k \<in> set (keys g)" using pre by simp
    from fits_lookup [OF fg kg] have p: "lookup params k = Inr (P k)"
      and len: "length (P k) = length (G k)"
      by (auto simp: P_def G_def)
    show "\<exists>x. bind (lookup params k) (\<lambda>pk. bind (scheduled_lr s2) (\<lambda>lr.
        bind (lookup (map (\<lambda>k. (k, MH k)) (keys g)) k) (\<lambda>mh.
        bind (lookup (map (\<lambda>k. (k, VH k)) (keys g)) k) (\<lambda>vh.
        bind (t_div (s_mul lr mh) (s_add (t_sqrt vh) (eps s2))) (\<lambda>q. t_sub pk q))))) = Inr x"
      using next_params_entry [where n = "\<lambda>k. length (G k)"
          and mh = "\<lambda>k. spec_mhat s (P k) (G k) (M k)"
          and vh = "\<lambda>k. spec_vhat s (P k) (G k) (V k)", OF kg p len lr2]
      by (simp add: MH_def VH_def)
  next
    have "k0 \<in> set (keys params)" using sp by simp
    then obtain x where "lookup params k0 = Inr x"
      using lookup_present by blast
    then show "bind (lookup params k0) (\<lambda>pk. bind (scheduled_lr s2) (\<lambda>lr.
        bind (lookup (map (\<lambda>k. (k, MH k)) (keys g)) k0) (\<lambda>mh.
        bind (lookup (map (\<lambda>k. (k, VH k)) (keys g)) k0) (\<lambda>vh.
        bind (t_div (s_mul lr mh) (s_add (t_sqrt vh) (eps s2))) (\<lambda>q. t_sub pk q)))))
        = Inl (KeyError k0)"
      using next_params_missing [OF miss _ lr2] by simp
  qed
  show ?thesis
    unfolding upd np by (simp add: s2_def)
qed

lemmas adam_defs = update_def decayed_g_def next_m_def next_v_def mhat_of_def vhat_of_def
  next_params_def scheduled_lr_def lookup_def keys_def bind_def t_add_def t_sub_def t_mul_def
  t_div_def broadcast2_def s_mul_def s_div_def s_add_def t_sqrt_def

lemma map_of_zeros_dict: "map_of (zeros_dict d) k = map_option zeros_like (map_of d k)"
proof (cases "k \<in> set (keys d)")
  case True
  then obtain x where "map_of d k = Some x"
    by (cases "map_of d k") (auto simp: keys_def map_of_eq_None_iff)
  with True show ?thesis by (simp add: zeros_dict_def map_of_tabulate)
next
  case False
  then have "map_of d k = None"
    by (simp add: keys_def map_of_eq_None_iff)
  with False show ?thesis by (simp add: zeros_dict_def map_of_tabulate)
qed

lemma keys_zeros_dict: "keys (zeros_dict d) = keys d"
  by (simp add: zeros_dict_def)

lemma reset_eq_Adam:
  fixes s :: "'dev adam"
  shows "reset s params
    = Adam params (device s) (scheduler s) (learning_rate s) (b1 s) (b2 s) (eps s) (weight_decay s)"
  by (cases s) (simp add: reset_def Adam_def)

lemma update_frame:
  fixes s :: "'dev adam"
  shows "snd (update s params g)
    = s\<lparr>self_m := self_m (snd (update s params g)), self_v := self_v (snd (update s params g))\<rparr>"
  by (cases s) (simp add: update_def Let_def split: sum.splits)

section \<open>Lemmas about the store\<close>

lemma grows_refl: "grows self st st"
  by (auto simp: grows_def)

lemma grows_trans:
  assumes a: "grows self st st'" and b: "grows self st' st''"
  shows "grows self st st''"
proof -
  from a have l1: "length st \<le> length st'"
    and f1: "\<And>x. x < length st \<Longrightarrow> x \<noteq> self \<Longrightarrow> st' ! x = st ! x"
    and i1: "\<And>s. self < length st \<Longrightarrow> st ! self = AdamObj s \<Longrightarrow>
          \<exists>s'. st' ! self = AdamObj s' \<and> s' = s\<lparr>a_m := a_m s', a_v := a_v s'\<rparr>"
    unfolding grows_def by blast+
  from b have l2: "length st' \<le> length st''"
    and f2: "\<And>x. x < length st' \<Longrightarrow> x \<noteq> self \<Longrightarrow> st'' ! x = st' ! x"
    and i2: "\<And>s. self < length st' \<Longrightarrow> st' ! self = AdamObj s \<Longrightarrow>
          \<exists>s'. st'' ! self = AdamObj s' \<and> s' = s\<lparr>a_m := a_m s', a_v := a_v s'\<rparr>"
    unfolding grows_def by blast+
  show ?thesis
    unfolding grows_def
  proof (intro conjI allI impI)
    show "length st \<le> length st''" using l1 l2 by simp
  next
    fix x assume x: "x < length st" "x \<noteq> self"
    then have "x < length st'" using l1 by simp
    with x show "st'' ! x = st ! x" by (simp add: f1 f2)
  next
    fix s assume s: "self < length st \<and> st ! self = AdamObj s"
    then obtain s' where s': "st' ! self = AdamObj s'" "s' = s\<lparr>a_m := a_m s', a_v := a_v s'\<rparr>"
      using i1 by blast
    from s l1 have "self < length st'" by simp
    then obtain s'' where s'': "st'' ! self = AdamObj s''"
        "s'' = s'\<lparr>a_m := a_m s'', a_v := a_v s''\<rparr>"
      using i2 [OF _ s'(1)] by blast
    have "s'' = s\<lparr>a_m := a_m s'', a_v := a_v s''\<rparr>"
      by (subst s''(2), subst s'(2)) simp
    with s''(1) show "\<exists>s'. st'' ! self = AdamObj s' \<and> s' = s\<lparr>a_m := a_m s', a_v := a_v s'\<rparr>"
      by blast
  qed
qed

lemma safe_bind:
  assumes "safe self p" and "\<And>x. safe self (f x)"
  shows "safe self (bind_st p f)"
  unfolding safe_def
proof
  fix st
  obtain out st' where p: "p st = (out, st')" by (cases "p st")
  from assms(1) p have g1: "grows self st st'" by (auto simp: safe_def dest: spec [of _ st])
  show "grows self st (snd (bind_st p f st))"
  proof (cases out)
    case (Inl e)
    with p g1 show ?thesis by (simp add: bind_st_def)
  next
    case (Inr x)
    from assms(2) [of x] have "grows self st' (snd (f x st'))" by (simp add: safe_def)
    with g1 have "grows self st (snd (f x st'))" by (rule grows_trans)
    with p Inr show ?thesis by (simp add: bind_st_def)
  qed
qed

lemma safe_lift: "safe self (lift_st r)"
  by (simp add: safe_def lift_st_def grows_refl)

lemma safe_alloc: "safe self (alloc ob)"
  by (simp add: safe_def alloc_def grows_def nth_append)

lemma safe_tensor_at: "safe self (tensor_at a)"
  by (simp add: safe_def tensor_at_def grows_refl split: obj.splits)

lemma safe_dict_at: "safe self (dict_at a)"
  by (simp add: safe_def dict_at_def grows_refl split: obj.splits)

lemma safe_self_at: "safe self (self_at a)"
  by (simp add: safe_def self_at_def grows_refl split: obj.splits)

lemma grows_set_m:
  assumes "self < length st" and "st ! self = AdamObj s"
  shows "grows self st (st[self := AdamObj (s\<lparr>a_m := d\<rparr>)])"
  unfolding grows_def using assms by simp

lemma grows_set_v:
  assumes "self < length st" and "st ! self = AdamObj s"
  shows "grows self st (st[self := AdamObj (s\<lparr>a_v := d\<rparr>)])"
  unfolding grows_def using assms by simp

lemma safe_set_m: "safe self (set_attr self (\<lambda>s. s\<lparr>a_m := d\<rparr>))"
  unfolding safe_def
proof
  fix st :: "'a obj list"
  show "grows self st (snd (set_attr self (\<lambda>s. s\<lparr>a_m := d\<rparr>) st))"
  proof (cases "self < length st")
    case True
    then show ?thesis
      by (cases "st ! self") (simp_all add: set_attr_def grows_refl grows_set_m)
  next
    case False
    then show ?thesis by (simp add: set_attr_def grows_refl)
  qed
qed

lemma safe_set_v: "safe self (set_attr self (\<lambda>s. s\<lparr>a_v := d\<rparr>))"
  unfolding safe_def
proof
  fix st :: "'a obj list"
  show "grows self st (snd (set_attr self (\<lambda>s. s\<lparr>a_v := d\<rparr>) st))"
  proof (cases "self < length st")
    case True
    then show ?thesis
      by (cases "st ! self") (simp_all add: set_attr_def grows_refl grows_set_v)
  next
    case False
    then show ?thesis by (simp add: set_attr_def grows_refl)
  qed
qed

lemmas safe_intros = safe_bind safe_lift safe_alloc safe_tensor_at safe_dict_at safe_self_at
  safe_set_m safe_set_v

lemma safe_item_at: "safe self (item_at d k)"
  unfolding item_at_def by (intro safe_intros)

lemma safe_add_at: "safe self (add_at a b)"
  unfolding add_at_def by (intro safe_intros)

lemma safe_sub_at: "safe self (sub_at a b)"
  unfolding sub_at_def by (intro safe_intros)

lemma safe_mul_at: "safe self (mul_at a b)"
  unfolding mul_at_def by (intro safe_intros)

lemma safe_div_at: "safe self (div_at a b)"
  unfolding div_at_def by (intro safe_intros)

lemma safe_smul_at: "safe self (smul_at c a)"
  unfolding smul_at_def by (intro safe_intros)

lemma safe_sdiv_at: "safe self (sdiv_at a c)"
  unfolding sdiv_at_def by (intro safe_intros)

lemma safe_sadd_at: "safe self (sadd_at a c)"
  unfolding sadd_at_def by (intro safe_intros)

lemma safe_sqrt_at: "safe self (sqrt_at a)"
  unfolding sqrt_at_def by (intro safe_intros)

lemma safe_comp_items:
  assumes "\<And>k. safe self (e k)"
  shows "safe self (comp_items ks e)"
proof (induction ks)
  case Nil
  show ?case by (simp add: safe_lift)
next
  case (Cons k ks)
  show ?case
    unfolding comp_items.simps
    by (intro safe_bind safe_lift assms Cons.IH)
qed

lemma safe_comp_at:
  assumes "\<And>k. safe self (e k)"
  shows "safe self (comp_at d e)"
  unfolding comp_at_def
  by (intro safe_bind safe_dict_at safe_alloc safe_comp_items assms)

lemma safe_scheduled_lr_at: "safe self (scheduled_lr_at self)"
  unfolding scheduled_lr_at_def by (intro safe_intros)

lemmas safe_all = safe_intros safe_item_at safe_add_at safe_sub_at safe_mul_at safe_div_at
  safe_smul_at safe_sdiv_at safe_sadd_at safe_sqrt_at safe_scheduled_lr_at

lemma safe_decayed_g_at: "safe self (decayed_g_at self params g)"
  unfolding decayed_g_at_def by (rule safe_comp_at) (intro safe_all)

lemma safe_next_m_at: "safe self (next_m_at self g)"
  unfolding next_m_at_def by (rule safe_comp_at) (intro safe_all)

lemma safe_next_v_at: "safe self (next_v_at self g)"
  unfolding next_v_at_def by (rule safe_comp_at) (intro safe_all)

lemma safe_mhat_at: "safe self (mhat_at self g)"
  unfolding mhat_at_def by (rule safe_comp_at) (intro safe_all)

lemma safe_vhat_at: "safe self (vhat_at self g)"
  unfolding vhat_at_def by (rule safe_comp_at) (intro safe_all)

lemma safe_next_params_at: "safe self (next_params_at self params mhat vhat)"
  unfolding next_params_at_def by (rule safe_comp_at) (intro safe_all)

lemma safe_update_at: "safe self (update_at self params g)"
  unfolding update_at_def
  by (intro safe_bind safe_decayed_g_at safe_next_m_at safe_next_v_at safe_mhat_at safe_vhat_at
      safe_next_params_at safe_set_m safe_set_v)

lemma bind_st_Inr:
  assumes "bind_st p f st = (Inr r, st')"
  obtains x st1 where "p st = (Inr x, st1)" and "f x st1 = (Inr r, st')"
proof -
  obtain out st1 where p: "p st = (out, st1)" by (cases "p st")
  show ?thesis
  proof (cases out)
    case (Inl e)
    with assms p show ?thesis by (simp add: bind_st_def)
  next
    case (Inr x)
    with assms p have "f x st1 = (Inr r, st')" by (simp add: bind_st_def)
    with p Inr that show ?thesis by blast
  qed
qed

lemma safe_grows: "safe self p \<Longrightarrow> p st = (out, st') \<Longrightarrow> grows self st st'"
  unfolding safe_def by (drule spec [of _ st]) simp

lemma grows_length: "grows self st st' \<Longrightarrow> length st \<le> length st'"
  by (simp add: grows_def)

lemma grows_nth: "grows self st st' \<Longrightarrow> a < length st \<Longrightarrow> a \<noteq> self \<Longrightarrow> st' ! a = st ! a"
  by (simp add: grows_def)

lemma fresh_tensor_alloc: "fresh_tensor (alloc (TensorObj z))"
  by (auto simp: fresh_tensor_def alloc_def)

lemma fresh_tensor_bind:
  assumes p: "safe self p" and f: "\<And>x. fresh_tensor (f x)"
  shows "fresh_tensor (bind_st p f)"
  unfolding fresh_tensor_def
proof (intro allI impI)
  fix st r st'
  assume "bind_st p f st = (Inr r, st')"
  then obtain x st1 where 1: "p st = (Inr x, st1)" and 2: "f x st1 = (Inr r, st')"
    by (rule bind_st_Inr)
  from safe_grows [OF p 1] have l: "length st \<le> length st1" by (rule grows_length)
  from f [of x] 2 have "length st1 \<le> r \<and> r < length st' \<and> (\<exists>t. st' ! r = TensorObj t)"
    unfolding fresh_tensor_def by blast
  with l show "length st \<le> r \<and> r < length st' \<and> (\<exists>t. st' ! r = TensorObj t)"
    by simp
qed

lemma fresh_tensor_ops:
  "fresh_tensor (add_at a b)" "fresh_tensor (sub_at a b)" "fresh_tensor (mul_at a b)"
  "fresh_tensor (div_at a b)" "fresh_tensor (smul_at c a)" "fresh_tensor (sdiv_at a c)"
  "fresh_tensor (sadd_at a c)" "fresh_tensor (sqrt_at a)"
  unfolding add_at_def sub_at_def mul_at_def div_at_def smul_at_def sdiv_at_def sadd_at_def
    sqrt_at_def
  by (intro fresh_tensor_bind [where self = 0] fresh_tensor_alloc safe_intros)+

lemma fresh_items_mono:
  assumes "fresh_items st1 st2 items" and "length st \<le> length st1"
  shows "fresh_items st st2 items"
  using assms unfolding fresh_items_def list_all_iff by fastforce

lemma comp_items_fresh:
  assumes s: "\<And>k. safe self (e k)" and f: "\<And>k. fresh_tensor (e k)"
  shows "self < length st \<Longrightarrow> comp_items ks e st = (Inr items, st')
    \<Longrightarrow> fresh_items st st' items"
proof (induction ks arbitrary: st items st')
  case Nil
  then show ?case by (simp add: lift_st_def fresh_items_def)
next
  case (Cons k ks)
  from Cons.prems(2) obtain a st1 where 1: "e k st = (Inr a, st1)"
    and 2: "bind_st (comp_items ks e) (\<lambda>d. lift_st (Inr ((k, a) # d))) st1 = (Inr items, st')"
    unfolding comp_items.simps by (rule bind_st_Inr)
  from 2 obtain d st2 where 3: "comp_items ks e st1 = (Inr d, st2)"
    and 4: "lift_st (Inr ((k, a) # d)) st2 = (Inr items, st')"
    by (rule bind_st_Inr)
  from 4 have items: "items = (k, a) # d" and st': "st' = st2" by (simp_all add: lift_st_def)
  from f [of k] 1 have a: "length st \<le> a" "a < length st1" and t: "\<exists>t. st1 ! a = TensorObj t"
    unfolding fresh_tensor_def by blast+
  have g1: "grows self st st1" by (rule safe_grows [OF s 1])
  have g2: "grows self st1 st2" by (rule safe_grows [OF safe_comp_items 3]) (rule s)
  from Cons.prems(1) grows_length [OF g1] have self1: "self < length st1" by simp
  have d: "fresh_items st1 st2 d" by (rule Cons.IH [OF self1 3])
  have d': "fresh_items st st2 d" by (rule fresh_items_mono [OF d grows_length [OF g1]])
  from Cons.prems(1) a have "a \<noteq> self" by simp
  with grows_nth [OF g2 a(2)] have "st2 ! a = st1 ! a" by simp
  with t a grows_length [OF g2] have "length st \<le> a \<and> a < length st2 \<and> (\<exists>t. st2 ! a = TensorObj t)"
    by simp
  with d' show ?case unfolding items st' fresh_items_def by simp
qed

lemma fresh_dict_comp_at:
  assumes s: "\<And>k. safe self (e k)" and f: "\<And>k. fresh_tensor (e k)"
  shows "fresh_dict self (comp_at d e)"
  unfolding fresh_dict_def
proof (intro allI impI, elim conjE)
  fix st r st'
  assume self: "self < length st" and run: "comp_at d e st = (Inr r, st')"
  from run obtain items st1 where 1: "dict_at d st = (Inr items, st1)"
    and 2: "bind_st (comp_items (map fst items) e) (\<lambda>new_items. alloc (DictObj new_items)) st1
        = (Inr r, st')"
    unfolding comp_at_def by (rule bind_st_Inr)
  from 1 have st1: "st1 = st"
    by (simp add: dict_at_def split: if_splits obj.splits)
  from 2 obtain new_items st2 where 3: "comp_items (map fst items) e st = (Inr new_items, st2)"
    and 4: "alloc (DictObj new_items) st2 = (Inr r, st')"
    unfolding st1 by (rule bind_st_Inr)
  from 4 have r: "r = length st2" and st': "st' = st2 @ [DictObj new_items]"
    by (simp_all add: alloc_def)
  have fi: "fresh_items st st2 new_items" by (rule comp_items_fresh [OF s f self 3])
  have l: "length st \<le> length st2"
    by (rule grows_length [OF safe_grows [OF safe_comp_items 3]]) (rule s)
  have "fresh_items st st' new_items"
    using fi unfolding st' fresh_items_def list_all_iff by (auto simp: nth_append)
  with l show "length st \<le> r \<and> r < length st'
      \<and> (\<exists>items. st' ! r = DictObj items \<and> fresh_items st st' items)"
    unfolding r st' by simp
qed

lemma fresh_dict_bind:
  assumes p: "safe self p" and f: "\<And>x. fresh_dict self (f x)"
  shows "fresh_dict self (bind_st p f)"
  unfolding fresh_dict_def
proof (intro allI impI, elim conjE)
  fix st r st'
  assume self: "self < length st" and run: "bind_st p f st = (Inr r, st')"
  from run obtain x st1 where 1: "p st = (Inr x, st1)" and 2: "f x st1 = (Inr r, st')"
    by (rule bind_st_Inr)
  from safe_grows [OF p 1] have l: "length st \<le> length st1" by (rule grows_length)
  with self have "self < length st1" by simp
  with f [of x] 2 obtain items where "length st1 \<le> r" "r < length st'"
      "st' ! r = DictObj items" "fresh_items st1 st' items"
    unfolding fresh_dict_def by blast
  with l fresh_items_mono [OF _ l] show "length st \<le> r \<and> r < length st'
      \<and> (\<exists>items. st' ! r = DictObj items \<and> fresh_items st st' items)"
    by auto
qed

lemma fresh_tensor_next_params_entry:
  "fresh_tensor (bind_st (item_at params k) (\<lambda>pk.
       bind_st (scheduled_lr_at self) (\<lambda>lr.
       bind_st (item_at mhat k) (\<lambda>mh.
       bind_st (smul_at lr mh) (\<lambda>t1.
       bind_st (item_at vhat k) (\<lambda>vh.
       bind_st (sqrt_at vh) (\<lambda>t2.
       bind_st (self_at self) (\<lambda>s.
       bind_st (sadd_at t2 (a_eps s)) (\<lambda>t3.
       bind_st (div_at t1 t3) (\<lambda>q.
       sub_at pk q))))))))))"
  by (intro fresh_tensor_bind [where self = self] fresh_tensor_ops safe_all)

lemma fresh_dict_next_params_at: "fresh_dict self (next_params_at self params mhat vhat)"
  unfolding next_params_at_def
  by (rule fresh_dict_comp_at) (intro safe_all, rule fresh_tensor_next_params_entry)

lemma fresh_dict_update_at: "fresh_dict self (update_at self params g)"
  unfolding update_at_def
  by (intro fresh_dict_bind safe_decayed_g_at safe_next_m_at safe_next_v_at safe_mhat_at
      safe_vhat_at safe_set_m safe_set_v fresh_dict_next_params_at)

lemma step_at_eq:
  assumes "self < length st" and "st ! self = AdamObj inst"
  shows "step_at self st = (Inr (), st[self := AdamObj (inst\<lparr>a_i := a_i inst + 1\<rparr>)])"
  using assms by (simp add: step_at_def bind_st_def self_at_def set_attr_def)

lemmas store_defs = update_at_def decayed_g_at_def next_m_at_def next_v_at_def mhat_at_def
  vhat_at_def next_params_at_def comp_at_def item_at_def add_at_def sub_at_def mul_at_def
  div_at_def smul_at_def sdiv_at_def sadd_at_def sqrt_at_def scheduled_lr_at_def bind_st_def
  lift_st_def alloc_def tensor_at_def dict_at_def self_at_def set_attr_def

section \<open>Auxiliary facts about matrices\<close>

lemma nrows_tabulate [simp]: "nrows (tabulate n m f) = n"
  by (simp add: tabulate_def)

lemma ncols_tabulate [simp]: "ncols (tabulate n m f) = m"
  by (simp add: tabulate_def)

lemma ent_tabulate [simp]: "ent (tabulate n m f) i j = (if i < n \<and> j < m then f i j else 0)"
  by (simp add: tabulate_def)

lemma tabulate_eqI:
  "(\<And>i j. i < n \<Longrightarrow> j < m \<Longrightarrow> f i j = g i j) \<Longrightarrow> tabulate n m f = tabulate n m g"
  by (auto simp: tabulate_def fun_eq_iff)

lemma tabulate_ent: "tabulate n m (ent (tabulate n m f)) = tabulate n m f"
  by (rule tabulate_eqI) simp

lemma shape_simps [simp]:
  "nrows (transpose_mat A) = ncols A" "ncols (transpose_mat A) = nrows A"
  "nrows (diag v) = length v" "ncols (diag v) = length v"
  "nrows (eye n) = n" "ncols (eye n) = n"
  by (simp_all add: transpose_mat_def diag_def eye_def)

lemma length_reciprocal [simp]: "length (reciprocal D) = length D"
  by (simp add: reciprocal_def)

lemma matmul_ok:
  "ncols A = nrows B \<Longrightarrow>
     matmul A B = Inr (tabulate (nrows A) (ncols B) (\<lambda>i j. \<Sum>k<ncols A. ent A i k * ent B k j))"
  by (simp add: matmul_def)

lemma broadcast_mat_same:
  "nrows A = nrows B \<Longrightarrow> ncols A = ncols B \<Longrightarrow>
     broadcast_mat f A B = Inr (tabulate (nrows A) (ncols A) (\<lambda>i j. f (ent A i j) (ent B i j)))"
  by (auto simp: broadcast_mat_def bdim_def bidx_def intro!: tabulate_eqI)

text \<open>The products with the diagonal matrix, entry by entry.\<close>

lemma sum_delta_left:
  fixes f :: "nat \<Rightarrow> real"
  shows "(\<Sum>k<n. (if i = k then f k else 0)) = (if i < n then f i else 0)"
  by (simp add: sum.delta)

lemma diag_matmul:
  assumes "nrows A = length v"
  shows "matmul (diag v) A = Inr (tabulate (length v) (ncols A) (\<lambda>i j. v ! i * ent A i j))"
proof -
  have "(\<Sum>k<length v. ent (diag v) i k * ent A k j) = v ! i * ent A i j"
    if "i < length v" for i j
  proof -
    have "(\<Sum>k<length v. ent (diag v) i k * ent A k j)
        = (\<Sum>k<length v. (if i = k then v ! k * ent A k j else 0))"
      using that by (intro sum.cong) (auto simp: diag_def)
    also have "\<dots> = v ! i * ent A i j"
      using that by (simp add: sum_delta_left)
    finally show ?thesis .
  qed
  then show ?thesis
    using assms by (simp add: matmul_def) (rule tabulate_eqI, simp)
qed

lemma matmul_diag:
  assumes "ncols A = length v"
  shows "matmul A (diag v) = Inr (tabulate (nrows A) (length v) (\<lambda>i j. ent A i j * v ! j))"
proof -
  have "(\<Sum>k<length v. ent A i k * ent (diag v) k j) = ent A i j * v ! j"
    if "j < length v" for i j
  proof -
    have "(\<Sum>k<length v. ent A i k * ent (diag v) k j)
        = (\<Sum>k<length v. (if j = k then ent A i k * v ! k else 0))"
      using that by (intro sum.cong) (auto simp: diag_def)
    also have "\<dots> = ent A i j * v ! j"
      using that by (simp add: sum_delta_left)
    finally show ?thesis .
  qed
  then show ?thesis
    using assms by (simp add: matmul_def) (rule tabulate_eqI, simp)
qed

text \<open>The inner matrix, entry by entry.\<close>

lemma inner_matrix_ok:
  assumes "nrows M = length D"
  shows "inner_matrix M D = Inr (tabulate (ncols M) (ncols M) (\<lambda>a b.
      (if a = b then 1 else 0) + (\<Sum>p<length D. ent M p a * (1 / D ! p) * ent M p b)))"
proof -
  have t2: "matmul (transpose_mat M) (diag (reciprocal D))
      = Inr (tabulate (ncols M) (length D) (\<lambda>a p. ent (transpose_mat M) a p * reciprocal D ! p))"
    using matmul_diag [of "transpose_mat M" "reciprocal D"] assms by simp
  have t3: "matmul (tabulate (ncols M) (length D)
        (\<lambda>a p. ent (transpose_mat M) a p * reciprocal D ! p)) M
      = Inr (tabulate (ncols M) (ncols M) (\<lambda>a b. \<Sum>p<length D. ent M p a * (1 / D ! p) * ent M p b))"
    using assms
    by (simp add: matmul_def)
      (rule tabulate_eqI, rule sum.cong, simp_all add: transpose_mat_def reciprocal_def)
  show ?thesis
    unfolding inner_matrix_def Let_def t2 bind_Inr t3 mat_add_def
    by (simp add: broadcast_mat_same eye_def) (rule tabulate_eqI, simp)
qed

text \<open>The inner matrix has an inverse: one rank-one update for each row.\<close>

lemma inner_fun_sym: "inner_fun w c N a b = inner_fun w c N b a"
  by (auto simp: inner_fun_def intro!: sum.cong)

lemma inner_fun_Suc: "inner_fun w c (Suc N) a b = inner_fun w c N a b + c N * w N a * w N b"
  by (simp add: inner_fun_def algebra_simps)

lemma sum_delta_right:
  fixes f :: "nat \<Rightarrow> real"
  shows "(\<Sum>k<n. f k * (if k = i then 1 else 0)) = (if i < n then f i else 0)"
proof -
  have "(\<Sum>k<n. f k * (if k = i then 1 else 0)) = (\<Sum>k<n. (if i = k then f k else 0))"
    by (intro sum.cong) auto
  then show ?thesis by (simp add: sum.delta)
qed

lemma quad_form_nonneg:
  assumes c: "\<And>p. p < N \<Longrightarrow> 0 \<le> c p"
  shows "0 \<le> (\<Sum>a<h. u a * (\<Sum>b<h. inner_fun w c N a b * u b))"
proof -
  have "(\<Sum>a<h. u a * (\<Sum>b<h. inner_fun w c N a b * u b))
      = (\<Sum>a<h. u a * u a) + (\<Sum>p<N. c p * (\<Sum>a<h. w p a * u a)\<^sup>2)"
  proof -
    have 1: "(\<Sum>b<h. inner_fun w c N a b * u b)
        = (if a < h then u a else 0) + (\<Sum>p<N. c p * w p a * (\<Sum>b<h. w p b * u b))" for a
    proof -
      have "(\<Sum>b<h. inner_fun w c N a b * u b)
          = (\<Sum>b<h. (if a = b then u b else 0)) + (\<Sum>b<h. \<Sum>p<N. w p a * c p * w p b * u b)"
      proof -
        have "inner_fun w c N a b * u b
            = (if a = b then u b else 0) + (\<Sum>p<N. w p a * c p * w p b * u b)" for b
          by (simp add: inner_fun_def algebra_simps sum_distrib_left)
        then show ?thesis by (simp add: sum.distrib)
      qed
      also have "(\<Sum>b<h. \<Sum>p<N. w p a * c p * w p b * u b)
          = (\<Sum>p<N. \<Sum>b<h. w p a * c p * w p b * u b)"
        by (rule sum.swap)
      also have "\<dots> = (\<Sum>p<N. c p * w p a * (\<Sum>b<h. w p b * u b))"
        by (simp add: sum_distrib_left algebra_simps)
      finally show ?thesis by (simp add: sum.delta)
    qed
    have "(\<Sum>a<h. u a * (\<Sum>b<h. inner_fun w c N a b * u b))
        = (\<Sum>a<h. u a * u a) + (\<Sum>a<h. \<Sum>p<N. u a * (c p * w p a * (\<Sum>b<h. w p b * u b)))"
      unfolding 1
      by (simp add: algebra_simps sum.distrib sum_distrib_left)
    also have "(\<Sum>a<h. \<Sum>p<N. u a * (c p * w p a * (\<Sum>b<h. w p b * u b)))
        = (\<Sum>p<N. \<Sum>a<h. u a * (c p * w p a * (\<Sum>b<h. w p b * u b)))"
      by (rule sum.swap)
    also have "\<dots> = (\<Sum>p<N. c p * (\<Sum>a<h. w p a * u a)\<^sup>2)"
      by (simp add: power2_eq_square sum_distrib_left sum_distrib_right algebra_simps)
    finally show ?thesis .
  qed
  moreover have "0 \<le> (\<Sum>a<h. u a * u a)"
    by (intro sum_nonneg) simp
  moreover have "0 \<le> (\<Sum>p<N. c p * (\<Sum>a<h. w p a * u a)\<^sup>2)"
    using c by (intro sum_nonneg) simp
  ultimately show ?thesis by simp
qed


lemma inner_inverse_exists:
  assumes c: "\<And>p. p < N \<Longrightarrow> 0 < c p"
  shows "\<exists>B. (\<forall>a<h. \<forall>b<h. B a b = B b a)
    \<and> (\<forall>a<h. \<forall>e<h. (\<Sum>b<h. B a b * inner_fun w c N b e) = (if a = e then 1 else 0))"
  using assms
proof (induction N)
  case 0
  define B :: "nat \<Rightarrow> nat \<Rightarrow> real" where "B = (\<lambda>a b. if a = b then 1 else 0)"
  have "(\<Sum>b<h. B a b * inner_fun w c 0 b e) = (if a = e then 1 else 0)" if "a < h" for a e
  proof -
    have "(\<Sum>b<h. B a b * inner_fun w c 0 b e) = (\<Sum>b<h. (if a = b then inner_fun w c 0 b e else 0))"
      by (intro sum.cong) (auto simp: B_def)
    also have "\<dots> = inner_fun w c 0 a e"
      using that by (simp add: sum.delta)
    finally show ?thesis by (simp add: inner_fun_def)
  qed
  moreover have "B a b = B b a" for a b
    by (simp add: B_def)
  ultimately show ?case by blast
next
  case (Suc N)
  let ?A = "inner_fun w c N"
  from Suc obtain B where sym: "\<And>a b. a < h \<Longrightarrow> b < h \<Longrightarrow> B a b = B b a"
    and left: "\<And>a e. a < h \<Longrightarrow> e < h \<Longrightarrow> (\<Sum>b<h. B a b * ?A b e) = (if a = e then 1 else 0)"
    by (metis less_Suc_eq)
  define x where "x = w N"
  define g where "g = c N"
  define u where "u = (\<lambda>a. \<Sum>b<h. B a b * x b)"
  define q where "q = (\<Sum>a<h. x a * u a)"
  define k where "k = g / (1 + g * q)"
  define B' where "B' = (\<lambda>a b. B a b - k * u a * u b)"
  have g: "0 < g" using Suc.prems by (simp add: g_def)
  have uA: "(\<Sum>b<h. u b * ?A b e) = x e" if e: "e < h" for e
  proof -
    have "(\<Sum>b<h. u b * ?A b e) = (\<Sum>b<h. \<Sum>d<h. x d * (B b d * ?A b e))"
      unfolding u_def sum_distrib_right by (intro sum.cong refl) (simp add: mult_ac)
    also have "\<dots> = (\<Sum>d<h. \<Sum>b<h. x d * (B b d * ?A b e))"
      by (rule sum.swap)
    also have "\<dots> = (\<Sum>d<h. x d * (\<Sum>b<h. B d b * ?A b e))"
      unfolding sum_distrib_left by (intro sum.cong refl) (simp add: sym)
    also have "\<dots> = (\<Sum>d<h. x d * (if d = e then 1 else 0))"
      using e by (intro sum.cong) (simp_all add: left)
    also have "\<dots> = x e"
      using e by (simp add: sum_delta_right)
    finally show ?thesis .
  qed
  have Au: "(\<Sum>b<h. ?A a b * u b) = x a" if "a < h" for a
  proof -
    have "(\<Sum>b<h. ?A a b * u b) = (\<Sum>b<h. u b * ?A b a)"
      by (intro sum.cong) (simp_all add: inner_fun_sym [of w c N a] mult.commute)
    then show ?thesis using uA [OF that] by simp
  qed
  have q: "0 \<le> q"
  proof -
    have "(\<Sum>a<h. u a * (\<Sum>b<h. ?A a b * u b)) = (\<Sum>a<h. u a * x a)"
      by (intro sum.cong refl) (simp add: Au)
    then have "q = (\<Sum>a<h. u a * (\<Sum>b<h. ?A a b * u b))"
      by (simp add: q_def mult.commute)
    also have "0 \<le> \<dots>"
      by (rule quad_form_nonneg) (use Suc.prems in \<open>simp add: less_imp_le\<close>)
    finally show ?thesis .
  qed
  have pos: "0 < 1 + g * q"
    using g q by (simp add: add_pos_nonneg)
  have "(\<Sum>b<h. B' a b * inner_fun w c (Suc N) b e) = (if a = e then 1 else 0)"
    if a: "a < h" and e: "e < h" for a e
  proof -
    have "(\<Sum>b<h. B' a b * inner_fun w c (Suc N) b e)
        = (\<Sum>b<h. B a b * ?A b e + g * x e * (B a b * x b) - k * u a * (u b * ?A b e)
            - k * g * u a * x e * (x b * u b))"
      by (intro sum.cong) (simp_all add: B'_def inner_fun_Suc x_def g_def algebra_simps)
    also have "\<dots> = (\<Sum>b<h. B a b * ?A b e) + g * x e * (\<Sum>b<h. B a b * x b)
        - k * u a * (\<Sum>b<h. u b * ?A b e) - k * g * u a * x e * (\<Sum>b<h. x b * u b)"
      by (simp add: sum.distrib sum_subtractf sum_distrib_left)
    also have "\<dots> = (if a = e then 1 else 0) + g * x e * u a - k * u a * x e - k * g * u a * x e * q"
    proof -
      have "(\<Sum>b<h. B a b * x b) = u a"
        by (simp add: u_def)
      then show ?thesis
        using a e by (simp add: left uA q_def)
    qed
    also have "\<dots> = (if a = e then 1 else 0) + u a * x e * (g - k * (1 + g * q))"
      by (simp add: algebra_simps)
    also have "g - k * (1 + g * q) = 0"
      using pos by (simp add: k_def)
    finally show ?thesis by simp
  qed
  moreover have "B' a b = B' b a" if "a < h" "b < h" for a b
    using that by (simp add: B'_def sym)
  ultimately show ?case by blast
qed

text \<open>The Woodbury identity, entry by entry.\<close>

lemma woodbury_entry:
  fixes Mf Bf :: "nat \<Rightarrow> nat \<Rightarrow> real" and d :: "nat \<Rightarrow> real"
  assumes d: "\<And>p. p < N \<Longrightarrow> d p \<noteq> 0"
    and left: "\<And>a e. a < h \<Longrightarrow> e < h \<Longrightarrow>
      (\<Sum>b<h. Bf a b * inner_fun Mf (\<lambda>p. 1 / d p) N b e) = (if a = e then 1 else 0)"
    and i: "i < N" and k: "k < N"
  shows "(\<Sum>j<N. ((if i = j then 1 / d i else 0)
            - (\<Sum>b<h. (\<Sum>a<h. 1 / d i * Mf i a * Bf a b) * Mf j b) * (1 / d j))
          * ((\<Sum>e<h. Mf j e * Mf k e) + (if j = k then d j else 0)))
       = (if i = k then 1 else 0)"
proof -
  define c where "c = (\<lambda>p. 1 / d p)"
  define W where "W = (\<lambda>b. \<Sum>a<h. c i * Mf i a * Bf a b)"
  define G where "G = (\<lambda>j. \<Sum>e<h. Mf j e * Mf k e)"
  define T where "T = (\<lambda>j. (\<Sum>b<h. W b * Mf j b) * c j)"
  have cd: "c p * d p = 1" if "p < N" for p
    using d [OF that] by (simp add: c_def)
  have split: "(\<Sum>j<N. ((if i = j then c i else 0) - T j) * (G j + (if j = k then d j else 0)))
      = (\<Sum>j<N. (if i = j then c j * G j else 0))
        + (\<Sum>j<N. (if i = j then (if j = k then c j * d j else 0) else 0))
        - (\<Sum>j<N. T j * G j) - (\<Sum>j<N. (if k = j then T j * d j else 0))"
  proof -
    have "((if i = j then c i else 0) - T j) * (G j + (if j = k then d j else 0))
        = (if i = j then c j * G j else 0)
          + (if i = j then (if j = k then c j * d j else 0) else 0)
          - T j * G j - (if k = j then T j * d j else 0)" for j
      by (simp add: algebra_simps)
    then show ?thesis
      by (simp add: sum.distrib sum_subtractf)
  qed
  have t1: "(\<Sum>j<N. (if i = j then c j * G j else 0)) = c i * G i"
    using i by (simp add: sum.delta)
  have t2: "(\<Sum>j<N. (if i = j then (if j = k then c j * d j else 0) else 0))
      = (if i = k then 1 else 0)"
    using i cd by (simp add: sum.delta)
  have t4: "(\<Sum>j<N. (if k = j then T j * d j else 0)) = (\<Sum>b<h. W b * Mf k b)"
  proof -
    have "(\<Sum>j<N. (if k = j then T j * d j else 0)) = T k * d k"
      using k by (simp add: sum.delta)
    also have "\<dots> = (\<Sum>b<h. W b * Mf k b) * (c k * d k)"
      by (simp add: T_def)
    finally show ?thesis using cd [OF k] by simp
  qed
  have WA: "(\<Sum>b<h. W b * inner_fun Mf c N b e) = c i * Mf i e" if e: "e < h" for e
  proof -
    have "(\<Sum>b<h. W b * inner_fun Mf c N b e)
        = (\<Sum>b<h. \<Sum>a<h. c i * Mf i a * (Bf a b * inner_fun Mf c N b e))"
      unfolding W_def sum_distrib_right by (intro sum.cong refl) (simp add: mult_ac)
    also have "\<dots> = (\<Sum>a<h. \<Sum>b<h. c i * Mf i a * (Bf a b * inner_fun Mf c N b e))"
      by (rule sum.swap)
    also have "\<dots> = (\<Sum>a<h. c i * Mf i a * (\<Sum>b<h. Bf a b * inner_fun Mf c N b e))"
      by (simp add: sum_distrib_left)
    also have "\<dots> = (\<Sum>a<h. c i * Mf i a * (if a = e then 1 else 0))"
      using e by (intro sum.cong refl) (simp add: left c_def)
    also have "\<dots> = c i * Mf i e"
      using e by (simp add: sum_delta_right)
    finally show ?thesis .
  qed
  have t3: "(\<Sum>j<N. T j * G j) = c i * G i - (\<Sum>b<h. W b * Mf k b)"
  proof -
    have "(\<Sum>j<N. T j * G j) = (\<Sum>j<N. \<Sum>b<h. \<Sum>e<h. W b * (Mf j b * c j * Mf j e) * Mf k e)"
    proof (intro sum.cong refl)
      fix j
      have "T j * G j = (\<Sum>b<h. W b * Mf j b * c j) * (\<Sum>e<h. Mf j e * Mf k e)"
        by (simp add: T_def G_def sum_distrib_right)
      also have "\<dots> = (\<Sum>b<h. \<Sum>e<h. W b * Mf j b * c j * (Mf j e * Mf k e))"
        by (rule sum_product)
      also have "\<dots> = (\<Sum>b<h. \<Sum>e<h. W b * (Mf j b * c j * Mf j e) * Mf k e)"
        by (intro sum.cong refl) (simp add: mult_ac)
      finally show "T j * G j = (\<Sum>b<h. \<Sum>e<h. W b * (Mf j b * c j * Mf j e) * Mf k e)" .
    qed
    also have "\<dots> = (\<Sum>b<h. \<Sum>j<N. \<Sum>e<h. W b * (Mf j b * c j * Mf j e) * Mf k e)"
      by (rule sum.swap)
    also have "\<dots> = (\<Sum>b<h. \<Sum>e<h. \<Sum>j<N. W b * (Mf j b * c j * Mf j e) * Mf k e)"
      by (intro sum.cong refl sum.swap)
    also have "\<dots> = (\<Sum>b<h. \<Sum>e<h. W b * (inner_fun Mf c N b e - (if b = e then 1 else 0)) * Mf k e)"
      by (intro sum.cong refl)
        (simp add: inner_fun_def sum_distrib_left sum_distrib_right)
    also have "\<dots> = (\<Sum>b<h. \<Sum>e<h. W b * inner_fun Mf c N b e * Mf k e)
        - (\<Sum>b<h. \<Sum>e<h. (if b = e then W b * Mf k e else 0))"
      unfolding sum_subtractf [symmetric]
      by (intro sum.cong refl) (simp add: algebra_simps)
    also have "(\<Sum>b<h. \<Sum>e<h. (if b = e then W b * Mf k e else 0)) = (\<Sum>b<h. W b * Mf k b)"
      by (intro sum.cong refl) (simp add: sum.delta)
    also have "(\<Sum>b<h. \<Sum>e<h. W b * inner_fun Mf c N b e * Mf k e)
        = (\<Sum>e<h. \<Sum>b<h. W b * inner_fun Mf c N b e * Mf k e)"
      by (rule sum.swap)
    also have "\<dots> = (\<Sum>e<h. (\<Sum>b<h. W b * inner_fun Mf c N b e) * Mf k e)"
      by (simp add: sum_distrib_right)
    also have "\<dots> = (\<Sum>e<h. c i * Mf i e * Mf k e)"
      by (intro sum.cong refl) (simp add: WA)
    also have "\<dots> = c i * G i"
      by (simp add: G_def sum_distrib_left mult.assoc)
    finally show ?thesis .
  qed
  have "(\<Sum>j<N. ((if i = j then 1 / d i else 0)
            - (\<Sum>b<h. (\<Sum>a<h. 1 / d i * Mf i a * Bf a b) * Mf j b) * (1 / d j))
          * ((\<Sum>e<h. Mf j e * Mf k e) + (if j = k then d j else 0)))
      = (\<Sum>j<N. ((if i = j then c i else 0) - T j) * (G j + (if j = k then d j else 0)))"
    unfolding c_def T_def W_def G_def by (rule refl)
  also have "\<dots> = (if i = k then 1 else 0)"
    unfolding split t1 t2 t3 t4 by simp
  finally show ?thesis .
qed


lemma tabulate_eqD:
  "tabulate n m f = tabulate n m g \<Longrightarrow> i < n \<Longrightarrow> j < m \<Longrightarrow> f i j = g i j"
  by (drule arg_cong [where f = "\<lambda>A. ent A i j"]) simp

lemma inner_matrix_fun:
  assumes "nrows M = length D"
  shows "inner_matrix M D
    = Inr (tabulate (ncols M) (ncols M) (inner_fun (ent M) (\<lambda>p. 1 / D ! p) (length D)))"
  unfolding inner_matrix_ok [OF assms] inner_fun_def ..

lemma is_inverse_left:
  assumes "is_inverse B (tabulate h h f)" and "a < h" and "e < h"
  shows "(\<Sum>b<h. ent B a b * f b e) = (if a = e then 1 else 0)"
proof -
  from assms(1) have sh: "nrows B = h" "ncols B = h"
    and eq: "matmul B (tabulate h h f) = Inr (eye h)"
    by (simp_all add: is_inverse_def)
  from eq sh have "tabulate h h (\<lambda>i j. \<Sum>k<h. ent B i k * ent (tabulate h h f) k j)
      = tabulate h h (\<lambda>i j. if i = j then 1 else 0)"
    by (simp add: matmul_def eye_def)
  from tabulate_eqD [OF this assms(2,3)]
  have "(\<Sum>k<h. ent B a k * ent (tabulate h h f) k e) = (if a = e then 1 else 0)" .
  moreover have "(\<Sum>k<h. ent B a k * ent (tabulate h h f) k e) = (\<Sum>b<h. ent B a b * f b e)"
    using assms(3) by (intro sum.cong refl) simp
  ultimately show ?thesis by simp
qed

lemma inner_matrix_invertible:
  assumes pos: "\<And>p. p < N \<Longrightarrow> 0 < c p"
  shows "\<exists>B. is_inverse B (tabulate h h (inner_fun w c N))"
proof -
  let ?A = "inner_fun w c N"
  from inner_inverse_exists [of N c h w] pos obtain B
    where sym: "\<And>a b. a < h \<Longrightarrow> b < h \<Longrightarrow> B a b = B b a"
      and left: "\<And>a e. a < h \<Longrightarrow> e < h \<Longrightarrow> (\<Sum>b<h. B a b * ?A b e) = (if a = e then 1 else 0)"
    by blast
  have right: "(\<Sum>b<h. ?A a b * B b e) = (if a = e then 1 else 0)" if "a < h" "e < h" for a e
  proof -
    have "(\<Sum>b<h. ?A a b * B b e) = (\<Sum>b<h. B e b * ?A b a)"
      using that by (intro sum.cong refl) (simp add: sym inner_fun_sym [of w c N a] mult.commute)
    with left [OF that(2,1)] show ?thesis by auto
  qed
  have "matmul (tabulate h h B) (tabulate h h ?A) = Inr (eye h)"
    unfolding matmul_def eye_def
    by simp (rule tabulate_eqI, simp add: left cong: sum.cong)
  moreover have "matmul (tabulate h h ?A) (tabulate h h B) = Inr (eye h)"
    unfolding matmul_def eye_def
    by simp (rule tabulate_eqI, simp add: right cong: sum.cong)
  ultimately have "is_inverse (tabulate h h B) (tabulate h h ?A)"
    by (simp add: is_inverse_def)
  then show ?thesis ..
qed

lemma MatrixInverse_ok:
  assumes sh: "nrows M = length D"
    and A: "inner_matrix M D = Inr A"
    and B: "linalg_inv A = Inr B" "nrows B = ncols M" "ncols B = ncols M"
  shows "MatrixInverse linalg_inv M D dev
    = Inr (tabulate (length D) (length D) (\<lambda>i j. (if i = j then 1 / D ! i else 0)
        - (\<Sum>b<ncols M. (\<Sum>a<ncols M. 1 / D ! i * ent M i a * ent B a b) * ent M j b) * (1 / D ! j)))"
proof -
  let ?N = "length D" and ?h = "ncols M"
  let ?dD = "diag (reciprocal D)"
  define t1 where "t1 = tabulate ?N ?h (\<lambda>i a. 1 / D ! i * ent M i a)"
  define t4 where "t4 = tabulate ?N ?h (\<lambda>i b. \<Sum>a<?h. 1 / D ! i * ent M i a * ent B a b)"
  define t5 where "t5 = tabulate ?N ?N (\<lambda>i j. \<Sum>b<?h. (\<Sum>a<?h. 1 / D ! i * ent M i a * ent B a b) * ent M j b)"
  define t6 where "t6 = tabulate ?N ?N (\<lambda>i j.
      (\<Sum>b<?h. (\<Sum>a<?h. 1 / D ! i * ent M i a * ent B a b) * ent M j b) * (1 / D ! j))"
  have 1: "matmul ?dD M = Inr t1"
    using diag_matmul [of M "reciprocal D"] sh
    by (simp add: t1_def) (rule tabulate_eqI, simp add: reciprocal_def)
  have 4: "matmul t1 B = Inr t4"
    using B(2,3) unfolding matmul_def t1_def t4_def
    by simp (rule tabulate_eqI, simp cong: sum.cong)
  have 5: "matmul t4 (transpose_mat M) = Inr t5"
    using sh unfolding matmul_def t4_def t5_def
    by simp (rule tabulate_eqI, rule sum.cong [OF refl], simp add: transpose_mat_def)
  have 6: "matmul t5 ?dD = Inr t6"
    using matmul_diag [of t5 "reciprocal D"]
    by (simp add: t5_def t6_def) (rule tabulate_eqI, simp add: reciprocal_def)
  have 7: "mat_sub ?dD t6 = Inr (tabulate ?N ?N (\<lambda>i j. (if i = j then 1 / D ! i else 0)
        - (\<Sum>b<?h. (\<Sum>a<?h. 1 / D ! i * ent M i a * ent B a b) * ent M j b) * (1 / D ! j)))"
    unfolding mat_sub_def
    by (simp add: broadcast_mat_same t6_def)
      (rule tabulate_eqI, simp add: diag_def reciprocal_def)
  show ?thesis
    unfolding MatrixInverse_def Let_def 1 bind_Inr A B(1) 4 5 6 7 ..
qed

lemma Sigma_ok:
  assumes "nrows M = length D"
  shows "Sigma M D = Inr (tabulate (length D) (length D) (\<lambda>j k.
      (\<Sum>e<ncols M. ent M j e * ent M k e) + (if j = k then D ! j else 0)))"
proof -
  have 1: "matmul M (transpose_mat M)
      = Inr (tabulate (length D) (length D) (\<lambda>j k. \<Sum>e<ncols M. ent M j e * ent M k e))"
    using assms unfolding matmul_def
    by simp (rule tabulate_eqI, rule sum.cong [OF refl], simp add: transpose_mat_def)
  show ?thesis
    unfolding Sigma_def 1 bind_Inr mat_add_def
    by (simp add: broadcast_mat_same) (rule tabulate_eqI, simp add: diag_def)
qed

lemma MatrixInverse_woodbury:
  assumes sh: "nrows M = length D"
    and A: "inner_matrix M D = Inr A"
    and B: "linalg_inv A = Inr B" "nrows B = ncols M" "ncols B = ncols M"
  shows "MatrixInverse linalg_inv M D dev = Inr (woodbury M D B)"
proof -
  have "(\<Sum>b<ncols M. (\<Sum>a<ncols M. 1 / D ! i * ent M i a * ent B a b) * ent M j b) * (1 / D ! j)
      = (\<Sum>a<ncols M. \<Sum>b<ncols M. (1 / D ! i * ent M i a) * ent B a b * (ent M j b * (1 / D ! j)))"
    for i j
  proof -
    have "(\<Sum>b<ncols M. (\<Sum>a<ncols M. 1 / D ! i * ent M i a * ent B a b) * ent M j b) * (1 / D ! j)
        = (\<Sum>b<ncols M. \<Sum>a<ncols M. (1 / D ! i * ent M i a) * ent B a b * (ent M j b * (1 / D ! j)))"
      unfolding sum_distrib_right by (intro sum.cong refl) (simp add: mult_ac)
    also have "\<dots> = (\<Sum>a<ncols M. \<Sum>b<ncols M. (1 / D ! i * ent M i a) * ent B a b * (ent M j b * (1 / D ! j)))"
      by (rule sum.swap)
    finally show ?thesis .
  qed
  then show ?thesis
    unfolding MatrixInverse_ok [where linalg_inv = linalg_inv, OF assms] woodbury_def by simp
qed

text \<open>Sums of logarithms, and the degenerate case of the Woodbury expression.\<close>

lemma torch_sum_log_pos:
  "list_all (\<lambda>d. 0 < d) D \<Longrightarrow> torch_sum (map torch_log D) = Finite (\<Sum>d\<leftarrow>D. ln d)"
  by (induction D) (simp_all add: torch_sum_def torch_log_def)

lemma fl_add_NaN [simp]: "fl_add x NaN = NaN"
  by (cases x) simp_all

lemma fl_add_NegInf: "fl_add x NegInf = NegInf \<or> fl_add x NegInf = NaN"
  by (cases x) simp_all

lemma woodbury_empty:
  assumes "ncols M = 0"
  shows "woodbury M D B = diag (reciprocal D)"
  unfolding woodbury_def diag_def length_reciprocal
  by (rule tabulate_eqI) (simp add: assms reciprocal_def)

text \<open>The counts of the instrumented functions.\<close>

lemma matmul_count_ok:
  "matmul A B = Inr C \<Longrightarrow> matmul_count A B = Inr (C, nrows A * ncols A * ncols B)"
  by (simp add: matmul_count_def)

lemma matmul_shape:
  "matmul A B = Inr C \<Longrightarrow> nrows C = nrows A \<and> ncols C = ncols B \<and> ncols A = nrows B"
  by (auto simp: matmul_def split: if_splits)

lemma bind_eq_Inr: "bind r f = Inr y \<longleftrightarrow> (\<exists>x. r = Inr x \<and> f x = Inr y)"
  by (cases r) simp_all

lemma inner_matrix_count_ok:
  assumes sh: "nrows M = length D" and A: "inner_matrix M D = Inr A"
  shows "inner_matrix_count M D = Inr (A, MatrixLogDet_mults (length D) (ncols M))"
proof -
  from A obtain t2 t3 where t2: "matmul (transpose_mat M) (diag (reciprocal D)) = Inr t2"
    and t3: "matmul t2 M = Inr t3" and a: "mat_add (eye (ncols M)) t3 = Inr A"
    by (auto simp: inner_matrix_def Let_def bind_eq_Inr)
  from matmul_shape [OF t2] have s2: "nrows t2 = ncols M" "ncols t2 = length D"
    by simp_all
  show ?thesis
    unfolding inner_matrix_count_def Let_def matmul_count_ok [OF t2] bind_Inr prod.case
      matmul_count_ok [OF t3] a
    by (simp add: s2 sh MatrixLogDet_mults_def power2_eq_square)
qed

lemma MatrixInverse_count_ok:
  assumes sh: "nrows M = length D" and A: "inner_matrix M D = Inr A"
    and B: "linalg_inv A = Inr B" "nrows B = ncols M" "ncols B = ncols M"
  shows "MatrixInverse_count linalg_inv M D dev
    = Inr (woodbury M D B, MatrixInverse_mults (length D) (ncols M))"
proof -
  have R: "MatrixInverse linalg_inv M D dev = Inr (woodbury M D B)"
    by (rule MatrixInverse_woodbury [where linalg_inv = linalg_inv, OF assms])
  then obtain t1 t4 t5 t6 where t1: "matmul (diag (reciprocal D)) M = Inr t1"
    and t4: "matmul t1 B = Inr t4" and t5: "matmul t4 (transpose_mat M) = Inr t5"
    and t6: "matmul t5 (diag (reciprocal D)) = Inr t6"
    and r: "mat_sub (diag (reciprocal D)) t6 = Inr (woodbury M D B)"
    by (auto simp: MatrixInverse_def Let_def bind_eq_Inr A B(1))
  from matmul_shape [OF t1] have s1: "nrows t1 = length D" "ncols t1 = ncols M"
    by simp_all
  from matmul_shape [OF t4] have s4: "nrows t4 = length D" "ncols t4 = ncols M"
    by (simp_all add: s1 B)
  from matmul_shape [OF t5] have s5: "nrows t5 = length D" "ncols t5 = length D"
    by (simp_all add: s4 sh)
  show ?thesis
    unfolding MatrixInverse_count_def Let_def matmul_count_ok [OF t1] bind_Inr prod.case
      inner_matrix_count_ok [OF sh A] B(1) matmul_count_ok [OF t4] matmul_count_ok [OF t5]
      matmul_count_ok [OF t6] r
    by (simp add: s1 s4 s5 sh B MatrixInverse_mults_def MatrixLogDet_mults_def
        power2_eq_square power3_eq_cube algebra_simps)
qed

lemma MatrixLogDet_count_ok:
  assumes sh: "nrows M = length D" and A: "inner_matrix M D = Inr A"
    and d: "linalg_det A = Inr d"
  shows "MatrixLogDet_count linalg_det M D dev
    = Inr (fl_add (torch_sum (map torch_log D)) (torch_log d),
        MatrixLogDet_mults (length D) (ncols M))"
  unfolding MatrixLogDet_count_def Let_def inner_matrix_count_ok [OF sh A] bind_Inr prod.case d ..

lemma cubic_exceeds:
  fixes c :: nat
  shows "c * (c + 2 + 1) < (c + 2) ^ 3"
proof -
  have "c * (c + 2 + 1) < (c + 2) * (c + 3)"
    by (simp add: algebra_simps)
  also have "\<dots> \<le> (c + 2) * (c + 2)\<^sup>2"
    by (intro mult_le_mono2) (simp add: power2_eq_square algebra_simps)
  also have "\<dots> = (c + 2) ^ 3"
    by (simp add: power3_eq_cube power2_eq_square)
  finally show ?thesis .
qed

section \<open>Lemmas about the rounded operations\<close>

lemma find_exp_eq:
  "2 powi e' \<le> x \<Longrightarrow> x < 2 powi (e' + 1) \<Longrightarrow> e' \<le> e \<Longrightarrow> e - int n \<le> e'
    \<Longrightarrow> find_exp n e x = e'"
proof (induction n arbitrary: e)
  case 0
  then show ?case by simp
next
  case (Suc n)
  show ?case
  proof (cases "e = e'")
    case True
    with Suc.prems show ?thesis by simp
  next
    case False
    with Suc.prems have lt: "e' + 1 \<le> e" by simp
    have "(2::real) powi (e' + 1) \<le> 2 powi e"
      by (rule power_int_increasing [OF lt]) simp
    with Suc.prems have "\<not> 2 powi e \<le> x" by simp
    moreover have "find_exp n (e - 1) x = e'"
      using Suc.prems lt by (intro Suc.IH) simp_all
    ultimately show ?thesis by simp
  qed
qed

lemma exponent32_eq:
  assumes "2 powi e \<le> \<bar>x\<bar>" and "\<bar>x\<bar> < 2 powi (e + 1)" and "- 126 \<le> e" and "e \<le> 127"
  shows "exponent32 x = e"
  unfolding exponent32_def using assms by (intro find_exp_eq) simp_all

lemma round32_eval:
  assumes "2 powi e \<le> \<bar>x\<bar>" and "\<bar>x\<bar> < 2 powi (e + 1)" and "- 126 \<le> e" and "e \<le> 127"
    and "u = 2 powi (e - 23)"
  shows "round32 x = of_int (round_even (x / u)) * u"
  unfolding round32_def exponent32_eq [OF assms(1-4)] assms(5) by (simp add: Let_def)

lemma r_1: "round32 1 = 1"
  by (subst round32_eval [where e = 0 and u = "1 / 8388608"]) (simp_all add: round_even_def)

lemma r_3000: "round32 3000 = 3000"
  by (subst round32_eval [where e = 11 and u = "1 / 4096"]) (simp_all add: round_even_def)

lemma r_9000000: "round32 9000000 = 9000000"
  by (subst round32_eval [where e = 23 and u = 1]) (simp_all add: round_even_def)

lemma r_9000001: "round32 9000001 = 9000001"
  by (subst round32_eval [where e = 23 and u = 1]) (simp_all add: round_even_def)

lemma r_inv: "round32 (1 / 9000001) = 15637497 / 140737488355328"
  by (subst round32_eval [where e = "-24" and u = "1 / 140737488355328"])
    (simp_all add: round_even_def)

lemma r_t4: "round32 (5864061375 / 17592186044416) = 11453245 / 34359738368"
  by (subst round32_eval [where e = "-12" and u = "1 / 34359738368"])
    (simp_all add: round_even_def)

lemma r_t4': "round32 (11453245 / 34359738368) = 11453245 / 34359738368"
  by (subst round32_eval [where e = "-12" and u = "1 / 34359738368"])
    (simp_all add: round_even_def)

lemma r_t5: "round32 (4294966875 / 4294967296) = 8388607 / 8388608"
  by (subst round32_eval [where e = "-1" and u = "1 / 16777216"])
    (simp_all add: round_even_def)

lemma r_t5': "round32 (8388607 / 8388608) = 8388607 / 8388608"
  by (subst round32_eval [where e = "-1" and u = "1 / 16777216"])
    (simp_all add: round_even_def)

lemma r_R: "round32 (1 / 8388608) = 1 / 8388608"
  by (subst round32_eval [where e = "-23" and u = "1 / 70368744177664"])
    (simp_all add: round_even_def)

lemma r_prod: "round32 (9000001 / 8388608) = 9000001 / 8388608"
  by (subst round32_eval [where e = 0 and u = "1 / 8388608"])
    (simp_all add: round_even_def)

lemma upt_1: "[0..<1] = [0]"
  by (simp add: upt_rec)

lemmas rnd_defs = matmul_rnd_def mat_add_rnd_def mat_sub_rnd_def reciprocal_rnd_def
  broadcast_mat_def bdim_def bidx_def diag_def eye_def transpose_mat_def upt_1

lemma mat11: "tabulate 1 1 f = tabulate 1 1 (\<lambda>i j. f 0 0)"
  by (rule tabulate_eqI) simp

lemmas r_vals = r_1 r_3000 r_9000000 r_9000001 r_inv r_t4 r_t4' r_t5 r_t5' r_R r_prod

lemma inner_3000:
  "inner_matrix_rnd round32 M3000 [1] = Inr (tabulate 1 1 (\<lambda>i j. 9000001))"
  unfolding inner_matrix_rnd_def M3000_def
  by (simp add: rnd_defs r_vals Let_def)

lemma inverse_3000:
  "MatrixInverse_rnd round32 (inv_1x1_rnd round32) M3000 [1] ()
     = Inr (tabulate 1 1 (\<lambda>i j. 1 / 8388608))"
  unfolding MatrixInverse_rnd_def inner_3000
  by (simp add: M3000_def inv_1x1_rnd_def rnd_defs r_vals Let_def)

lemma sigma_3000:
  "Sigma_rnd round32 M3000 [1] = Inr (tabulate 1 1 (\<lambda>i j. 9000001))"
  unfolding Sigma_rnd_def
  by (simp add: M3000_def rnd_defs r_vals Let_def)

lemma prod_3000:
  "matmul_rnd round32 (tabulate 1 1 (\<lambda>i j. 1 / 8388608)) (tabulate 1 1 (\<lambda>i j. 9000001))
     = Inr (tabulate 1 1 (\<lambda>i j. 9000001 / 8388608))"
  apply (simp add: rnd_defs r_vals Let_def)
  apply (rule tabulate_eqI)
  apply (simp add: r_vals)
  done

lemma r_0: "round32 0 = 0"
  by (simp add: round32_def round_even_def)

lemma r_4096: "round32 4096 = 4096"
  by (subst round32_eval [where e = 12 and u = "1 / 2048"]) (simp_all add: round_even_def)

lemma r_2p24: "round32 16777216 = 16777216"
  by (subst round32_eval [where e = 24 and u = 2]) (simp_all add: round_even_def)

lemma r_2p24_1: "round32 16777217 = 16777216"
  by (subst round32_eval [where e = 24 and u = 2]) (simp_all add: round_even_def)

lemma r_2m24: "round32 (1 / 16777216) = 1 / 16777216"
  by (subst round32_eval [where e = "-24" and u = "1 / 140737488355328"])
    (simp_all add: round_even_def)

lemma r_2m12: "round32 (1 / 4096) = 1 / 4096"
  by (subst round32_eval [where e = "-12" and u = "1 / 34359738368"])
    (simp_all add: round_even_def)

lemmas r_vals2 = r_0 r_1 r_4096 r_2p24 r_2p24_1 r_2m24 r_2m12

lemma inner_4096:
  "inner_matrix_rnd round32 M4096 [1] = Inr (tabulate 1 1 (\<lambda>i j. 16777216))"
  unfolding inner_matrix_rnd_def M4096_def
  by (simp add: rnd_defs r_vals2 Let_def)

lemma inverse_4096:
  "MatrixInverse_rnd round32 (inv_1x1_rnd round32) M4096 [1] ()
     = Inr (tabulate 1 1 (\<lambda>i j. 0))"
  unfolding MatrixInverse_rnd_def inner_4096
  by (simp add: M4096_def inv_1x1_rnd_def rnd_defs r_vals2 Let_def)

lemma foldl_sum: "foldl (\<lambda>acc k. acc + f k) a [0..<n] = a + (\<Sum>k<n. f k)"
  by (induction n) (simp_all add: add.assoc)

lemma matmul_rnd_exact: "matmul_rnd (\<lambda>x. x) A B = matmul A B"
  by (simp add: matmul_rnd_def matmul_def foldl_sum)

lemma mat_add_rnd_exact: "mat_add_rnd (\<lambda>x. x) = mat_add"
  by (simp add: mat_add_rnd_def mat_add_def)

lemma mat_sub_rnd_exact: "mat_sub_rnd (\<lambda>x. x) = mat_sub"
  by (simp add: mat_sub_rnd_def mat_sub_def)

lemma reciprocal_rnd_exact: "reciprocal_rnd (\<lambda>x. x) D = reciprocal D"
  by (simp add: reciprocal_rnd_def reciprocal_def)

lemma inner_matrix_rnd_exact: "inner_matrix_rnd (\<lambda>x. x) M D = inner_matrix M D"
  by (simp add: inner_matrix_rnd_def inner_matrix_def matmul_rnd_exact mat_add_rnd_exact
      reciprocal_rnd_exact)

lemma MatrixInverse_rnd_exact:
  "MatrixInverse_rnd (\<lambda>x. x) linalg_inv M D dev = MatrixInverse linalg_inv M D dev"
  by (simp add: MatrixInverse_rnd_def MatrixInverse_def matmul_rnd_exact mat_sub_rnd_exact
      reciprocal_rnd_exact inner_matrix_rnd_exact)

lemma Sigma_rnd_exact: "Sigma_rnd (\<lambda>x. x) M D = Sigma M D"
  by (simp add: Sigma_rnd_def Sigma_def matmul_rnd_exact mat_add_rnd_exact)

section \<open>The Woodbury identity on the reals\<close>

lemma woodbury_inverse_exact:
  assumes sh: "nrows M = length D"
    and pos: "list_all (\<lambda>d. 0 < d) D"
    and A: "inner_matrix M D = Inr A"
    and contract: "inv_contract linalg_inv A"
  shows "\<exists>B R S. linalg_inv A = Inr B \<and> is_inverse B A
    \<and> MatrixInverse linalg_inv M D dev = Inr R \<and> R = woodbury M D B
    \<and> Sigma M D = Inr S
    \<and> S = tabulate (length D) (length D) (\<lambda>j k.
          (\<Sum>e<ncols M. ent M j e * ent M k e) + (if j = k then D ! j else 0))
    \<and> matmul R S = Inr (tabulate (length D) (length D) (\<lambda>i k. if i = k then 1 else 0))
    \<and> (\<forall>i<length D. \<forall>k<length D.
          (\<Sum>j<length D. ent R i j * ent S j k) = (if i = k then 1 else 0))"
proof -
  let ?N = "length D" and ?h = "ncols M"
  let ?c = "\<lambda>p. 1 / D ! p"
  have Aeq: "A = tabulate ?h ?h (inner_fun (ent M) ?c ?N)"
    using A inner_matrix_fun [OF sh] by simp
  have cpos: "0 < ?c p" if "p < ?N" for p
    using pos that by (simp add: list_all_length)
  have "\<exists>B. is_inverse B A"
    unfolding Aeq by (rule inner_matrix_invertible) (rule cpos)
  with contract obtain B where B: "linalg_inv A = Inr B" and inv: "is_inverse B A"
    by (auto simp: inv_contract_def split: sum.splits)
  from inv have shB: "nrows B = ?h" "ncols B = ?h"
    by (simp_all add: is_inverse_def Aeq)
  have left: "(\<Sum>b<?h. ent B a b * inner_fun (ent M) ?c ?N b e) = (if a = e then 1 else 0)"
    if "a < ?h" "e < ?h" for a e
    using is_inverse_left [OF inv [unfolded Aeq] that] .
  have R: "MatrixInverse linalg_inv M D dev
      = Inr (tabulate ?N ?N (\<lambda>i j. (if i = j then 1 / D ! i else 0)
        - (\<Sum>b<?h. (\<Sum>a<?h. 1 / D ! i * ent M i a * ent B a b) * ent M j b) * (1 / D ! j)))"
    by (rule MatrixInverse_ok [where linalg_inv = linalg_inv, OF sh A B shB])
  have R': "MatrixInverse linalg_inv M D dev = Inr (woodbury M D B)"
    by (rule MatrixInverse_woodbury [where linalg_inv = linalg_inv, OF sh A B shB])
  have S: "Sigma M D = Inr (tabulate ?N ?N (\<lambda>j k.
      (\<Sum>e<?h. ent M j e * ent M k e) + (if j = k then D ! j else 0)))"
    by (rule Sigma_ok [OF sh])
  have dnz: "D ! p \<noteq> 0" if "p < ?N" for p
    using cpos [OF that] by auto
  let ?R = "tabulate ?N ?N (\<lambda>i j. (if i = j then 1 / D ! i else 0)
        - (\<Sum>b<?h. (\<Sum>a<?h. 1 / D ! i * ent M i a * ent B a b) * ent M j b) * (1 / D ! j))"
  let ?S = "tabulate ?N ?N (\<lambda>j k.
      (\<Sum>e<?h. ent M j e * ent M k e) + (if j = k then D ! j else 0))"
  have entry: "(\<Sum>j<?N. ent ?R i j * ent ?S j k) = (if i = k then 1 else 0)"
    if i: "i < ?N" and k: "k < ?N" for i k
  proof -
    have "(\<Sum>j<?N. ent ?R i j * ent ?S j k)
        = (\<Sum>j<?N. ((if i = j then 1 / D ! i else 0)
            - (\<Sum>b<?h. (\<Sum>a<?h. 1 / D ! i * ent M i a * ent B a b) * ent M j b) * (1 / D ! j))
          * ((\<Sum>e<?h. ent M j e * ent M k e) + (if j = k then D ! j else 0)))"
      using i k by (intro sum.cong refl) simp
    also have "\<dots> = (if i = k then 1 else 0)"
      using woodbury_entry [where d = "\<lambda>p. D ! p" and Mf = "ent M" and Bf = "ent B"
          and N = ?N and h = ?h, OF dnz left i k] by simp
    finally show ?thesis .
  qed
  have "matmul ?R ?S = Inr (tabulate ?N ?N (\<lambda>i k. \<Sum>j<?N. ent ?R i j * ent ?S j k))"
    by (rule trans [OF matmul_ok]) simp_all
  also have "tabulate ?N ?N (\<lambda>i k. \<Sum>j<?N. ent ?R i j * ent ?S j k) = eye ?N"
    unfolding eye_def by (rule tabulate_eqI) (rule entry)
  finally have prod: "matmul ?R ?S = Inr (eye ?N)" .
  have Req: "woodbury M D B = ?R"
    using R R' by simp
  have p1: "matmul (woodbury M D B) ?S
      = Inr (tabulate ?N ?N (\<lambda>i k. if i = k then 1 else 0))"
    unfolding Req using prod by (simp add: eye_def)
  have p2: "\<forall>i<?N. \<forall>k<?N.
      (\<Sum>j<?N. ent (woodbury M D B) i j * ent ?S j k) = (if i = k then 1 else 0)"
    unfolding Req using entry by blast
  show ?thesis
    by (intro exI [of _ B] exI [of _ "woodbury M D B"] exI [of _ ?S] conjI B inv R' refl S p1 p2)
qed

section \<open>The claims about the optimizer\<close>

text \<open>
  C3: when the key sets of \<open>params\<close>, \<open>g\<close> and the stored moments agree (with equal
  tensor shapes under each key), \<open>update\<close> returns a dictionary with the keys of
  \<open>params\<close>; under every key its entries are
  \<open>params - lr * mhat / (sqrt vhat + eps)\<close>, where \<open>g' = g + weight_decay * params\<close>, the
  new \<open>m = (1 - b1) * g' + b1 * m\<close> and the new \<open>v = (1 - b2) * g'\<^sup>2 + b2 * v\<close> are what
  the call stores, \<open>mhat\<close> and \<open>vhat\<close> divide them by \<open>1 - b1 ^ (i + 1)\<close> and
  \<open>1 - b2 ^ (i + 1)\<close> for the counter \<open>i\<close> as the call finds it, and \<open>lr\<close> is the
  scheduler's value at \<open>i\<close> if a scheduler is configured and the base rate otherwise.
\<close>

theorem C3_update_formula:
  fixes s :: "'dev adam"
  assumes cg: "compatible g params" and cm: "compatible (self_m s) params"
    and cv: "compatible (self_v s) params" and lr: "spec_lr s lr"
  shows "\<exists>out. fst (update s params g) = Inr out \<and> keys out = keys params \<and>
     (\<forall>k pk gk mk vk.
        map_of params k = Some pk \<and> map_of g k = Some gk
        \<and> map_of (self_m s) k = Some mk \<and> map_of (self_v s) k = Some vk \<longrightarrow>
          map_of out k = Some (map (spec_param s lr pk gk mk vk) [0..<length pk])
        \<and> map_of (self_m (snd (update s params g))) k
            = Some (map (spec_m s pk gk mk) [0..<length pk])
        \<and> map_of (self_v (snd (update s params g))) k
            = Some (map (spec_v s pk gk vk) [0..<length pk]))"
proof -
  define P where "P = (\<lambda>k. the (map_of params k))"
  define G where "G = (\<lambda>k. the (map_of g k))"
  define M where "M = (\<lambda>k. the (map_of (self_m s) k))"
  define V where "V = (\<lambda>k. the (map_of (self_v s) k))"
  define M' where "M' = (\<lambda>k. map (spec_m s (P k) (G k) (M k)) [0..<length (G k)])"
  define V' where "V' = (\<lambda>k. map (spec_v s (P k) (G k) (V k)) [0..<length (G k)])"
  define MH where "MH = (\<lambda>k. map (spec_mhat s (P k) (G k) (M k)) [0..<length (G k)])"
  define VH where "VH = (\<lambda>k. map (spec_vhat s (P k) (G k) (V k)) [0..<length (G k)])"
  define s2 where "s2 = s\<lparr>self_m := map (\<lambda>k. (k, M' k)) (keys g),
    self_v := map (\<lambda>k. (k, V' k)) (keys g)\<rparr>"
  define Out where "Out = (\<lambda>k. map (\<lambda>j. P k ! j - lr * spec_mhat s (P k) (G k) (M k) j
      / (sqrt (spec_vhat s (P k) (G k) (V k) j) + eps s2)) [0..<length (G k)])"
  have fg: "fits g params" and fm: "fits g (self_m s)" and fv: "fits g (self_v s)"
    using cg cm cv by (auto intro: compatible_fits compatible_fits_self)
  have sets: "set (keys params) = set (keys g)"
    using cg by (simp add: compatible_def)
  have upd: "update s params g =
      (next_params s2 params (map (\<lambda>k. (k, MH k)) (keys g)) (map (\<lambda>k. (k, VH k)) (keys g)), s2)"
    using update_stages [OF fg fm fv]
    by (simp add: P_def G_def M_def V_def M'_def V'_def MH_def VH_def s2_def)
  have lr2: "scheduled_lr s2 = Inr lr"
    using scheduled_lr_spec [OF lr]
    by (auto simp: scheduled_lr_def s2_def split: option.splits)
  have np: "next_params s2 params (map (\<lambda>k. (k, MH k)) (keys g)) (map (\<lambda>k. (k, VH k)) (keys g))
      = Inr (map (\<lambda>k. (k, Out k)) (keys params))"
    unfolding next_params_def MH_def VH_def Out_def
  proof (rule dict_comp_total)
    fix k assume k: "k \<in> set (keys params)"
    then have kg: "k \<in> set (keys g)" using sets by simp
    from fits_lookup [OF fg kg] have p: "lookup params k = Inr (P k)"
      and len: "length (P k) = length (G k)"
      by (auto simp: P_def G_def)
    show "bind (lookup params k) (\<lambda>pk. bind (scheduled_lr s2) (\<lambda>lr.
        bind (lookup (map (\<lambda>k. (k, map (spec_mhat s (P k) (G k) (M k)) [0..<length (G k)]))
          (keys g)) k) (\<lambda>mh.
        bind (lookup (map (\<lambda>k. (k, map (spec_vhat s (P k) (G k) (V k)) [0..<length (G k)]))
          (keys g)) k) (\<lambda>vh.
        bind (t_div (s_mul lr mh) (s_add (t_sqrt vh) (eps s2))) (\<lambda>q. t_sub pk q)))))
      = Inr (map (\<lambda>j. P k ! j - lr * spec_mhat s (P k) (G k) (M k) j
          / (sqrt (spec_vhat s (P k) (G k) (V k) j) + eps s2)) [0..<length (G k)])"
      using next_params_entry [where n = "\<lambda>k. length (G k)"
          and mh = "\<lambda>k. spec_mhat s (P k) (G k) (M k)"
          and vh = "\<lambda>k. spec_vhat s (P k) (G k) (V k)", OF kg p len lr2]
      by simp
  qed
  have "fst (update s params g) = Inr (map (\<lambda>k. (k, Out k)) (keys params))"
    by (simp add: upd np)
  moreover have "keys (map (\<lambda>k. (k, Out k)) (keys params)) = keys params"
    by simp
  moreover have "map_of (map (\<lambda>k. (k, Out k)) (keys params)) k
          = Some (map (spec_param s lr pk gk mk vk) [0..<length pk])
        \<and> map_of (self_m (snd (update s params g))) k
            = Some (map (spec_m s pk gk mk) [0..<length pk])
        \<and> map_of (self_v (snd (update s params g))) k
            = Some (map (spec_v s pk gk vk) [0..<length pk])"
    if h: "map_of params k = Some pk \<and> map_of g k = Some gk
        \<and> map_of (self_m s) k = Some mk \<and> map_of (self_v s) k = Some vk"
    for k pk gk mk vk
  proof -
    from h have k: "k \<in> set (keys params)" and kg: "k \<in> set (keys g)"
      by (auto intro: map_of_keys)
    from h have eqs: "P k = pk" "G k = gk" "M k = mk" "V k = vk"
      by (simp_all add: P_def G_def M_def V_def)
    from fits_lookup [OF fg kg] h have len: "length pk = length gk"
      by auto
    show ?thesis
      using k kg eqs len
      by (simp add: upd map_of_tabulate Out_def M'_def V'_def s2_def spec_param_def)
  qed
  ultimately show ?thesis by blast
qed

theorem C3_update_formula_witness:
  "compatible sample_g sample_params
   \<and> compatible (self_m sample_adam) sample_params
   \<and> compatible (self_v sample_adam) sample_params
   \<and> spec_lr sample_adam (1/20)
   \<and> (\<exists>out. fst (update sample_adam sample_params sample_g) = Inr out
        \<and> keys out = [''a'', ''b'']
        \<and> map_of out ''a''
            = Some (map (spec_param sample_adam (1/20) [1, 2] [2, 0] [5, 5] [7, 7]) [0..<2])
        \<and> map_of (self_m (snd (update sample_adam sample_params sample_g))) ''b''
            = Some (map (spec_m sample_adam [3] [4] [6]) [0..<1]))"
proof -
  have h1: "compatible sample_g sample_params"
    by (auto simp: compatible_def fits_def keys_def shape_of_def sample_g_def sample_params_def)
  have h2: "compatible (self_m sample_adam) sample_params"
    by (auto simp: compatible_def fits_def keys_def shape_of_def sample_adam_def sample_params_def)
  have h3: "compatible (self_v sample_adam) sample_params"
    by (auto simp: compatible_def fits_def keys_def shape_of_def sample_adam_def sample_params_def)
  have h4: "spec_lr sample_adam (1/20)"
    by (simp add: spec_lr_def sample_adam_def step_scheduler_def floordiv_def float_pow_def)
  from C3_update_formula [OF h1 h2 h3 h4] obtain out
    where out: "fst (update sample_adam sample_params sample_g) = Inr out"
      and k: "keys out = keys sample_params"
      and f: "\<And>k pk gk mk vk. map_of sample_params k = Some pk \<and> map_of sample_g k = Some gk
        \<and> map_of (self_m sample_adam) k = Some mk \<and> map_of (self_v sample_adam) k = Some vk \<Longrightarrow>
          map_of out k = Some (map (spec_param sample_adam (1/20) pk gk mk vk) [0..<length pk])
        \<and> map_of (self_m (snd (update sample_adam sample_params sample_g))) k
            = Some (map (spec_m sample_adam pk gk mk) [0..<length pk])
        \<and> map_of (self_v (snd (update sample_adam sample_params sample_g))) k
            = Some (map (spec_v sample_adam pk gk vk) [0..<length pk])"
    by blast
  have pa: "map_of sample_params ''a'' = Some [1, 2] \<and> map_of sample_g ''a'' = Some [2, 0]
      \<and> map_of (self_m sample_adam) ''a'' = Some [5, 5]
      \<and> map_of (self_v sample_adam) ''a'' = Some [7, 7]"
    by (simp add: sample_params_def sample_g_def sample_adam_def)
  have pb: "map_of sample_params ''b'' = Some [3] \<and> map_of sample_g ''b'' = Some [4]
      \<and> map_of (self_m sample_adam) ''b'' = Some [6]
      \<and> map_of (self_v sample_adam) ''b'' = Some [8]"
    by (simp add: sample_params_def sample_g_def sample_adam_def)
  have a: "map_of out ''a''
      = Some (map (spec_param sample_adam (1/20) [1, 2] [2, 0] [5, 5] [7, 7]) [0..<2])"
    using f [OF pa] by (simp add: numeral_2_eq_2)
  have b: "map_of (self_m (snd (update sample_adam sample_params sample_g))) ''b''
      = Some (map (spec_m sample_adam [3] [4] [6]) [0..<1])"
    using f [OF pb] by simp
  from k have k': "keys out = [''a'', ''b'']"
    by (simp add: sample_params_def keys_def)
  from h1 h2 h3 h4 out k' a b show ?thesis by blast
qed

text \<open>
  C5 (as stated): with \<open>alpha = 0.5\<close> and \<open>step = 10\<close> the scheduler returns \<open>lr\<close> at
  iteration 9. This fails: the exponent is \<open>(9 + 1) // 10 = 1\<close>, so the scheduler
  already returns \<open>lr * 0.5\<close> at iteration 9; at base rate 1 it returns \<open>1/2\<close>, not 1.
\<close>

theorem C5_counterexample:
  "step_scheduler (1/2) 10 9 1 = Inr (1/2) \<and> step_scheduler (1/2) 10 9 1 \<noteq> Inr 1"
  by (simp add: step_scheduler_def bind_def floordiv_def float_pow_def)

text \<open>
  C5 (amended): with \<open>alpha = 0.5\<close> and \<open>step = 10\<close>, for every base rate \<open>lr\<close> the
  scheduler returns \<open>lr\<close> at iteration 8, \<open>lr * 0.5\<close> at iterations 9, 10 and 18, and
  \<open>lr * 0.25\<close> at iterations 19 and 20: the rate drops at \<open>i = 9\<close> and \<open>i = 19\<close>,
  one iteration before each multiple of the step.
\<close>

theorem C5_step_scheduler_values:
  "step_scheduler (1/2) 10 8 lr = Inr lr
   \<and> step_scheduler (1/2) 10 9 lr = Inr (lr * (1/2))
   \<and> step_scheduler (1/2) 10 10 lr = Inr (lr * (1/2))
   \<and> step_scheduler (1/2) 10 18 lr = Inr (lr * (1/2))
   \<and> step_scheduler (1/2) 10 19 lr = Inr (lr * (1/4))
   \<and> step_scheduler (1/2) 10 20 lr = Inr (lr * (1/4))"
  by (simp add: step_scheduler_def bind_def floordiv_def float_pow_def power2_eq_square)

text \<open>
  C6: \<open>reset(params)\<close> followed by \<open>update(params, g)\<close> gives the same outcome, and leaves
  the same instance, as \<open>update(params, g)\<close> on an instance freshly constructed from
  \<open>params\<close> with the same device, scheduler and hyperparameters. After \<open>reset\<close> the
  counter is 0, both moment dictionaries have the keys of \<open>params\<close>, and under each key
  \<open>k\<close> of \<open>params\<close> both hold the tensor of as many zeros as \<open>params[k]\<close> has entries
  (and nothing under any other key).
\<close>

theorem C6_reset_then_update:
  fixes s :: "'dev adam"
  shows "update (reset s params) params g
      = update (Adam params (device s) (scheduler s) (learning_rate s) (b1 s) (b2 s) (eps s)
          (weight_decay s)) params g
    \<and> self_i (reset s params) = 0
    \<and> keys (self_m (reset s params)) = keys params
    \<and> keys (self_v (reset s params)) = keys params
    \<and> map_of (self_m (reset s params)) k
        = map_option (\<lambda>x. replicate (length x) 0) (map_of params k)
    \<and> map_of (self_v (reset s params)) k
        = map_option (\<lambda>x. replicate (length x) 0) (map_of params k)"
proof -
  have z: "map_of (zeros_dict params) k = map_option (\<lambda>x. replicate (length x) 0) (map_of params k)"
    by (simp add: map_of_zeros_dict zeros_like_def [abs_def])
  show ?thesis
    by (simp add: reset_eq_Adam [symmetric] reset_def z keys_zeros_dict)
qed

text \<open>
  C7: whatever its outcome, \<open>update\<close> leaves an instance that differs from the one it
  found in the fields \<open>self_m\<close> and \<open>self_v\<close> at most: the counter, the device, the
  scheduler and the hyperparameters are as before. \<open>step\<close> adds 1 to the counter and
  changes no other field.

  On the explicit store, for an instance at the address \<open>self\<close> and any addresses \<open>pa\<close>
  and \<open>ga\<close> given as \<^verbatim>\<open>params\<close> and \<^verbatim>\<open>g\<close>, and whatever the outcome of the call:
  \<open>update\<close> only adds objects to the store; every object that was in the store before
  the call, other than the instance, is the same object after it, in particular the
  dictionary at \<open>pa\<close> and every tensor whose address it holds; the instance differs in
  \<open>a_m\<close> and \<open>a_v\<close> at most; and when the call returns, it returns the address of a
  dictionary allocated during the call, whose entries are addresses of tensors
  allocated during the call. \<open>step\<close> replaces the instance by one whose counter is 1
  higher and changes nothing else in the store.
\<close>

theorem C7_update_step_frame:
  fixes s :: "'dev adam" and st :: "'dev2 obj list"
  shows "snd (update s params g)
      = s\<lparr>self_m := self_m (snd (update s params g)), self_v := self_v (snd (update s params g))\<rparr>
    \<and> self_i (snd (update s params g)) = self_i s
    \<and> self_i (step s) = self_i s + 1
    \<and> step s = s\<lparr>self_i := self_i (step s)\<rparr>
    \<and> (self < length st \<and> st ! self = AdamObj inst \<longrightarrow>
         length st \<le> length (snd (update_at self pa ga st))
       \<and> (\<forall>a<length st. a \<noteq> self \<longrightarrow> snd (update_at self pa ga st) ! a = st ! a)
       \<and> (\<forall>pd. pa < length st \<and> st ! pa = DictObj pd \<longrightarrow>
             snd (update_at self pa ga st) ! pa = DictObj pd
             \<and> list_all (\<lambda>(k, b). \<forall>t. b < length st \<and> st ! b = TensorObj t
                   \<longrightarrow> snd (update_at self pa ga st) ! b = TensorObj t) pd)
       \<and> (\<exists>inst'. snd (update_at self pa ga st) ! self = AdamObj inst'
             \<and> inst' = inst\<lparr>a_m := a_m inst', a_v := a_v inst'\<rparr>)
       \<and> (\<forall>r. fst (update_at self pa ga st) = Inr r \<longrightarrow>
             length st \<le> r \<and> r < length (snd (update_at self pa ga st))
             \<and> (\<exists>items. snd (update_at self pa ga st) ! r = DictObj items
                  \<and> list_all (\<lambda>(k, b). length st \<le> b
                        \<and> b < length (snd (update_at self pa ga st))
                        \<and> (\<exists>t. snd (update_at self pa ga st) ! b = TensorObj t)) items))
       \<and> step_at self st = (Inr (), st[self := AdamObj (inst\<lparr>a_i := a_i inst + 1\<rparr>)]))"
proof (intro conjI impI)
  show "snd (update s params g)
      = s\<lparr>self_m := self_m (snd (update s params g)), self_v := self_v (snd (update s params g))\<rparr>"
    by (rule update_frame)
  show "self_i (snd (update s params g)) = self_i s"
    by (subst update_frame) simp
  show "self_i (step s) = self_i s + 1"
    by (simp add: step_def)
  show "step s = s\<lparr>self_i := self_i (step s)\<rparr>"
    by (simp add: step_def)
next
  assume "self < length st \<and> st ! self = AdamObj inst"
  then have self: "self < length st" and inst: "st ! self = AdamObj inst"
    by simp_all
  define out where "out = fst (update_at self pa ga st)"
  define st' where "st' = snd (update_at self pa ga st)"
  have run: "update_at self pa ga st = (out, st')"
    by (simp add: out_def st'_def)
  have gr: "grows self st st'"
    by (rule safe_grows [OF safe_update_at run])
  show "length st \<le> length st'"
    using gr by (rule grows_length)
  show "\<forall>a<length st. a \<noteq> self \<longrightarrow> st' ! a = st ! a"
    using gr by (simp add: grows_def)
  show "\<forall>pd. pa < length st \<and> st ! pa = DictObj pd \<longrightarrow>
      st' ! pa = DictObj pd
      \<and> list_all (\<lambda>(k, b). \<forall>t. b < length st \<and> st ! b = TensorObj t
            \<longrightarrow> st' ! b = TensorObj t) pd"
  proof (intro allI impI conjI)
    fix pd assume pd: "pa < length st \<and> st ! pa = DictObj pd"
    with inst have "pa \<noteq> self" by auto
    with pd show "st' ! pa = DictObj pd"
      using grows_nth [OF gr, of pa] by simp
    show "list_all (\<lambda>(k, b). \<forall>t. b < length st \<and> st ! b = TensorObj t
            \<longrightarrow> st' ! b = TensorObj t) pd"
      unfolding list_all_iff
    proof (intro ballI, clarify)
      fix k b t assume b: "b < length st" "st ! b = TensorObj t"
      with inst have "b \<noteq> self" by auto
      with b show "st' ! b = TensorObj t"
        using grows_nth [OF gr, of b] by simp
    qed
  qed
  show "\<exists>inst'. st' ! self = AdamObj inst' \<and> inst' = inst\<lparr>a_m := a_m inst', a_v := a_v inst'\<rparr>"
    using gr self inst unfolding grows_def by blast
  show "\<forall>r. out = Inr r \<longrightarrow> length st \<le> r \<and> r < length st'
      \<and> (\<exists>items. st' ! r = DictObj items
           \<and> list_all (\<lambda>(k, b). length st \<le> b \<and> b < length st'
                 \<and> (\<exists>t. st' ! b = TensorObj t)) items)"
  proof (intro allI impI)
    fix r assume "out = Inr r"
    with run have "update_at self pa ga st = (Inr r, st')" by simp
    with fresh_dict_update_at [of self pa ga] self
    show "length st \<le> r \<and> r < length st'
      \<and> (\<exists>items. st' ! r = DictObj items
           \<and> list_all (\<lambda>(k, b). length st \<le> b \<and> b < length st'
                 \<and> (\<exists>t. st' ! b = TensorObj t)) items)"
      unfolding fresh_dict_def fresh_items_def by blast
  qed
  show "step_at self st = (Inr (), st[self := AdamObj (inst\<lparr>a_i := a_i inst + 1\<rparr>)])"
    by (rule step_at_eq [OF self inst])
qed

theorem C7_update_step_frame_witness:
  "(0 < length sample_store \<and> sample_store ! 0 = AdamObj sample_obj)
   \<and> fst (update_at 0 1 2 sample_store) = Inr 30
   \<and> length sample_store \<le> length (snd (update_at 0 1 2 sample_store))
   \<and> 30 < length (snd (update_at 0 1 2 sample_store))
   \<and> snd (update_at 0 1 2 sample_store) ! 1 = DictObj [(''a'', 3)]
   \<and> snd (update_at 0 1 2 sample_store) ! 3 = TensorObj [1, 2]
   \<and> (\<exists>inst'. snd (update_at 0 1 2 sample_store) ! 0 = AdamObj inst'
         \<and> inst' = sample_obj\<lparr>a_m := a_m inst', a_v := a_v inst'\<rparr>)
   \<and> (\<exists>items. snd (update_at 0 1 2 sample_store) ! 30 = DictObj items
         \<and> list_all (\<lambda>(k, b). length sample_store \<le> b
               \<and> b < length (snd (update_at 0 1 2 sample_store))
               \<and> (\<exists>t. snd (update_at 0 1 2 sample_store) ! b = TensorObj t)) items)
   \<and> step_at 0 sample_store
       = (Inr (), sample_store[0 := AdamObj (sample_obj\<lparr>a_i := a_i sample_obj + 1\<rparr>)])
   \<and> self_i (snd (update sample_adam sample_params sample_g)) = self_i sample_adam
   \<and> self_i (step sample_adam) = self_i sample_adam + 1"
proof -
  have h: "0 < length sample_store \<and> sample_store ! 0 = AdamObj sample_obj"
    by (simp add: sample_store_def)
  have r: "fst (update_at 0 1 2 sample_store) = Inr 30"
    by (simp add: store_defs sample_store_def sample_obj_def t_add_def t_sub_def t_mul_def
        t_div_def broadcast2_def s_mul_def s_div_def s_add_def t_sqrt_def nth_append
        step_scheduler_def floordiv_def float_pow_def bind_def)
  note c = C7_update_step_frame [where s = sample_adam and params = sample_params
      and g = sample_g and st = sample_store and self = 0 and inst = sample_obj
      and pa = 1 and ga = 2]
  note v2 = c [THEN conjunct2, THEN conjunct1]
  note v3 = c [THEN conjunct2, THEN conjunct2, THEN conjunct1]
  note hp = c [THEN conjunct2, THEN conjunct2, THEN conjunct2, THEN conjunct2, THEN mp, OF h]
  note c1 = hp [THEN conjunct1]
  note c2 = hp [THEN conjunct2, THEN conjunct1]
  note c4 = hp [THEN conjunct2, THEN conjunct2, THEN conjunct2, THEN conjunct1]
  note c5 = hp [THEN conjunct2, THEN conjunct2, THEN conjunct2, THEN conjunct2, THEN conjunct1,
      THEN spec, THEN mp, OF r]
  note c6 = hp [THEN conjunct2, THEN conjunct2, THEN conjunct2, THEN conjunct2, THEN conjunct2]
  note c3 = hp [THEN conjunct2, THEN conjunct2, THEN conjunct1, THEN spec, of "[(''a'', 3)]"]
  have a1: "snd (update_at 0 1 2 sample_store) ! 1 = DictObj [(''a'', 3)]"
    using c3 by (simp add: sample_store_def)
  have a3: "snd (update_at 0 1 2 sample_store) ! 3 = TensorObj [1, 2]"
    using c2 [THEN spec, of 3] by (simp add: sample_store_def)
  show ?thesis
    by (intro conjI h [THEN conjunct1] h [THEN conjunct2] r c1 c5 [THEN conjunct2, THEN conjunct1]
        a1 a3 c4 c5 [THEN conjunct2, THEN conjunct2] c6 v2 v3)
qed

text \<open>
  C10 (as stated): when \<open>g\<close> contains a key absent from \<open>params\<close>, the moment
  dictionaries have been replaced by dictionaries keyed by the keys of \<open>g\<close> before the
  \<^verbatim>\<open>KeyError\<close> escapes. This fails: the exception is raised by line 41, before the first
  assignment, and the stored moments are untouched.
\<close>

theorem C10_counterexample:
  "fst (update sample_adam sample_params [(''a'', [1, 1]), (''b'', [1]), (''c'', [1])])
      = Inl (KeyError ''c'')
   \<and> self_m (snd (update sample_adam sample_params [(''a'', [1, 1]), (''b'', [1]), (''c'', [1])]))
      = [(''a'', [5, 5]), (''b'', [6])]
   \<and> keys (self_m (snd (update sample_adam sample_params [(''a'', [1, 1]), (''b'', [1]), (''c'', [1])])))
      \<noteq> keys [(''a'', [1, 1]), (''b'', [1]), (''c'', [1::real])]"
  by (simp add: sample_adam_def sample_params_def adam_defs)

text \<open>
  C10 (amended): (1) if the tensors that \<open>g\<close> and \<open>params\<close> hold under each key they
  share have equal shapes, and \<open>g\<close> contains a key absent from \<open>params\<close>, then \<open>update\<close>
  raises \<^verbatim>\<open>KeyError\<close> for the first such key of \<open>g\<close> and leaves the instance unchanged;
  (2) if every key of \<open>g\<close> is a key of \<open>params\<close>, of \<open>self_m\<close> and of \<open>self_v\<close>, holding
  in each of the three a tensor of the shape it has in \<open>g\<close>, the scheduler called with the
  current counter returns a rate (or no scheduler is configured), and \<open>params\<close> has a key
  that \<open>g\<close> omits, then \<open>update\<close> raises \<^verbatim>\<open>KeyError\<close> for the first such key of \<open>params\<close>,
  after \<open>self_m\<close> and \<open>self_v\<close> have been replaced by dictionaries keyed by the keys
  of \<open>g\<close>.
\<close>

theorem C10_key_mismatch:
  fixes s :: "'dev adam"
  shows "(agree g params \<and> find (\<lambda>k. k \<notin> set (keys params)) (keys g) = Some k0
            \<longrightarrow> update s params g = (Inl (KeyError k0), s))
    \<and> (fits g params \<and> fits g (self_m s) \<and> fits g (self_v s) \<and> spec_lr s lr
         \<and> find (\<lambda>k. k \<notin> set (keys g)) (keys params) = Some k1
            \<longrightarrow> fst (update s params g) = Inl (KeyError k1)
              \<and> keys (self_m (snd (update s params g))) = keys g
              \<and> keys (self_v (snd (update s params g))) = keys g)"
  using update_extra_key update_omitted_key by blast

theorem C10_key_mismatch_witness:
  "(agree [(''a'', [1, 1]), (''b'', [1]), (''c'', [1])] sample_params
     \<and> find (\<lambda>k. k \<notin> set (keys sample_params)) (keys [(''a'', [1, 1]), (''b'', [1]), (''c'', [1::real])])
         = Some ''c'')
   \<and> update sample_adam sample_params [(''a'', [1, 1]), (''b'', [1]), (''c'', [1])]
       = (Inl (KeyError ''c''), sample_adam)
   \<and> (fits [(''b'', [1])] sample_params \<and> fits [(''b'', [1])] (self_m sample_adam)
       \<and> fits [(''b'', [1])] (self_v sample_adam) \<and> spec_lr sample_adam (1/20)
       \<and> find (\<lambda>k. k \<notin> set (keys [(''b'', [1::real])])) (keys sample_params) = Some ''a'')
   \<and> fst (update sample_adam sample_params [(''b'', [1])]) = Inl (KeyError ''a'')
   \<and> keys (self_m (snd (update sample_adam sample_params [(''b'', [1])]))) = [''b'']
   \<and> keys (self_v (snd (update sample_adam sample_params [(''b'', [1])]))) = [''b'']"
proof -
  have h1: "agree [(''a'', [1, 1]), (''b'', [1]), (''c'', [1])] sample_params
     \<and> find (\<lambda>k. k \<notin> set (keys sample_params)) (keys [(''a'', [1, 1]), (''b'', [1]), (''c'', [1::real])])
         = Some ''c''"
    by (simp add: agree_def sample_params_def keys_def shape_of_def)
  have h2: "fits [(''b'', [1])] sample_params \<and> fits [(''b'', [1])] (self_m sample_adam)
       \<and> fits [(''b'', [1])] (self_v sample_adam) \<and> spec_lr sample_adam (1/20)
       \<and> find (\<lambda>k. k \<notin> set (keys [(''b'', [1::real])])) (keys sample_params) = Some ''a''"
    by (simp add: fits_def sample_params_def sample_adam_def keys_def shape_of_def spec_lr_def
        step_scheduler_def floordiv_def float_pow_def bind_def)
  note a = C10_key_mismatch [where g = "[(''a'', [1, 1]), (''b'', [1]), (''c'', [1])]"
      and params = sample_params and ?k0.0 = "''c''" and s = sample_adam]
  note b = C10_key_mismatch [where g = "[(''b'', [1])]" and params = sample_params
      and ?k1.0 = "''a''" and s = sample_adam and lr = "1/20"]
  from h1 h2 a b show ?thesis
    by (simp add: keys_def)
qed

section \<open>The claims about the structured covariance\<close>

text \<open>
  C1 (as stated): for every \<open>M\<close> and every positive \<open>D\<close> the product of the result of
  \<open>MatrixInverse\<close> with \<open>\<Sigma> = M\<cdot>M\<^sup>T + diag(D)\<close> is the identity within floating-point
  tolerance (the specification names a largest absolute error of \<open>10\<^sup>-\<^sup>4\<close>). This fails in
  \<^verbatim>\<open>float32\<close> at \<open>M = (3000)\<close>, \<open>D = (1)\<close>: the inner matrix is \<open>(9000001)\<close>, its inverse
  is returned to within half a unit in the last place, the product
  \<^verbatim>\<open>diagD@M@inv(...)@M.T@diagD\<close> is rounded to \<open>1 - 2\<^sup>-\<^sup>2\<^sup>3\<close>, the subtraction from \<open>diagD = (1)\<close>
  leaves \<open>2\<^sup>-\<^sup>2\<^sup>3\<close> where the inverse of \<open>\<Sigma> = (9000001)\<close> is \<open>1/9000001\<close>, and the product with
  \<open>\<Sigma>\<close> is \<open>9000001/8388608\<close>, about 1.0729. At \<open>M = (4096)\<close>, \<open>D = (1)\<close> the inner matrix
  \<open>1 + 2\<^sup>2\<^sup>4\<close> is rounded to \<open>2\<^sup>2\<^sup>4\<close> and the result is \<open>(0)\<close>.
\<close>

theorem C1_counterexample:
  "nrows M3000 = length [1::real]
   \<and> list_all (\<lambda>d. 0 < d) [1::real]
   \<and> inner_matrix_rnd round32 M3000 [1] = Inr (tabulate 1 1 (\<lambda>i j. 9000001))
   \<and> inv_1x1_rnd round32 (tabulate 1 1 (\<lambda>i j. 9000001))
       = Inr (tabulate 1 1 (\<lambda>i j. 15637497 / 140737488355328))
   \<and> \<bar>15637497 / 140737488355328 - 1 / 9000001\<bar> \<le> (1 / 281474976710656 :: real)
   \<and> MatrixInverse_rnd round32 (inv_1x1_rnd round32) M3000 [1] ()
       = Inr (tabulate 1 1 (\<lambda>i j. 1 / 8388608))
   \<and> Sigma_rnd round32 M3000 [1] = Inr (tabulate 1 1 (\<lambda>i j. 9000001))
   \<and> matmul_rnd round32 (tabulate 1 1 (\<lambda>i j. 1 / 8388608)) (tabulate 1 1 (\<lambda>i j. 9000001))
       = Inr (tabulate 1 1 (\<lambda>i j. 9000001 / 8388608))
   \<and> 1 / 10000 < \<bar>9000001 / 8388608 - (1::real)\<bar>
   \<and> inner_matrix_rnd round32 M4096 [1] = Inr (tabulate 1 1 (\<lambda>i j. 16777216))
   \<and> MatrixInverse_rnd round32 (inv_1x1_rnd round32) M4096 [1] () = Inr (tabulate 1 1 (\<lambda>i j. 0))"
proof -
  have h1: "nrows M3000 = length [1::real]"
    by (simp add: M3000_def)
  have h2: "inv_1x1_rnd round32 (tabulate 1 1 (\<lambda>i j. 9000001))
       = Inr (tabulate 1 1 (\<lambda>i j. 15637497 / 140737488355328))"
    by (simp add: inv_1x1_rnd_def r_inv)
  have h3: "\<bar>15637497 / 140737488355328 - 1 / 9000001\<bar> \<le> (1 / 281474976710656 :: real)"
    by simp
  have h4: "1 / 10000 < \<bar>9000001 / 8388608 - (1::real)\<bar>"
    by simp
  have h5: "list_all (\<lambda>d. 0 < d) [1::real]"
    by simp
  show ?thesis
    by (intro conjI h1 h5 inner_3000 h2 h3 inverse_3000 sigma_3000 prod_3000 h4
        inner_4096 inverse_4096)
qed

text \<open>
  C1 (amended): \<open>MatrixInverse\<close> evaluates \<open>Dinv - Dinv\<cdot>M\<cdot>(I + M\<^sup>T\<cdot>Dinv\<cdot>M)\<^sup>-\<^sup>1\<cdot>M\<^sup>T\<cdot>Dinv\<close> with
  \<open>Dinv = diag(1/D)\<close>, rounding every operation. When no operation rounds (the rounding
  function is the identity) and the library inversion keeps its contract at the inner
  matrix \<open>A = I + M\<^sup>T\<cdot>Dinv\<cdot>M\<close>, then for \<open>M\<close> of shape \<open>(Npix, Nh)\<close> and \<open>D\<close> of length
  \<open>Npix\<close> with positive entries: the inner matrix has an inverse, so the inversion
  returns it as \<open>B\<close>; \<open>MatrixInverse\<close> returns \<open>Dinv - Dinv\<cdot>M\<cdot>B\<cdot>M\<^sup>T\<cdot>Dinv\<close>; \<open>\<Sigma>\<close> is the
  matrix with the entries \<open>\<Sum>\<^sub>e M\<^sub>j\<^sub>e\<cdot>M\<^sub>k\<^sub>e\<close>, plus \<open>D\<^sub>j\<close> on the diagonal; and the product of
  the result with \<open>\<Sigma>\<close> is the \<open>Npix \<times> Npix\<close> identity matrix, exactly. With the rounding
  of \<^verbatim>\<open>float32\<close> the product is not within a fixed tolerance of the identity for every
  such \<open>M\<close> and \<open>D\<close>, as the input above shows.
\<close>

theorem C1_woodbury_inverse:
  assumes sh: "nrows M = length D"
    and pos: "list_all (\<lambda>d. 0 < d) D"
    and A: "inner_matrix_rnd (\<lambda>x. x) M D = Inr A"
    and contract: "inv_contract linalg_inv A"
  shows "\<exists>B R S. linalg_inv A = Inr B \<and> is_inverse B A
    \<and> MatrixInverse_rnd (\<lambda>x. x) linalg_inv M D dev = Inr R \<and> R = woodbury M D B
    \<and> Sigma_rnd (\<lambda>x. x) M D = Inr S
    \<and> S = tabulate (length D) (length D) (\<lambda>j k.
          (\<Sum>e<ncols M. ent M j e * ent M k e) + (if j = k then D ! j else 0))
    \<and> matmul_rnd (\<lambda>x. x) R S
        = Inr (tabulate (length D) (length D) (\<lambda>i k. if i = k then 1 else 0))
    \<and> (\<forall>i<length D. \<forall>k<length D.
          (\<Sum>j<length D. ent R i j * ent S j k) = (if i = k then 1 else 0))"
  using woodbury_inverse_exact [where linalg_inv = linalg_inv and dev = dev,
      OF sh pos A [unfolded inner_matrix_rnd_exact] contract]
  unfolding MatrixInverse_rnd_exact Sigma_rnd_exact matmul_rnd_exact .

theorem C1_woodbury_inverse_witness:
  "nrows sample_M = length sample_D
   \<and> list_all (\<lambda>d. 0 < d) sample_D
   \<and> inner_matrix_rnd (\<lambda>x. x) sample_M sample_D = Inr (tabulate 1 1 (\<lambda>a b. 4))
   \<and> inv_contract inv_1x1 (tabulate 1 1 (\<lambda>a b. 4))
   \<and> (\<exists>B R S. inv_1x1 (tabulate 1 1 (\<lambda>a b. 4)) = Inr B \<and> is_inverse B (tabulate 1 1 (\<lambda>a b. 4))
        \<and> MatrixInverse_rnd (\<lambda>x. x) inv_1x1 sample_M sample_D () = Inr R
        \<and> R = woodbury sample_M sample_D B
        \<and> Sigma_rnd (\<lambda>x. x) sample_M sample_D = Inr S
        \<and> S = tabulate (length sample_D) (length sample_D) (\<lambda>j k.
              (\<Sum>e<ncols sample_M. ent sample_M j e * ent sample_M k e)
              + (if j = k then sample_D ! j else 0))
        \<and> matmul_rnd (\<lambda>x. x) R S
            = Inr (tabulate (length sample_D) (length sample_D) (\<lambda>i k. if i = k then 1 else 0))
        \<and> (\<forall>i<length sample_D. \<forall>k<length sample_D.
              (\<Sum>j<length sample_D. ent R i j * ent S j k) = (if i = k then 1 else 0)))"
proof -
  have h1: "nrows sample_M = length sample_D"
    by (simp add: sample_M_def sample_D_def)
  have h2: "list_all (\<lambda>d. 0 < d) sample_D"
    by (simp add: sample_D_def)
  have h3: "inner_matrix_rnd (\<lambda>x. x) sample_M sample_D = Inr (tabulate 1 1 (\<lambda>a b. 4))"
    unfolding inner_matrix_rnd_exact inner_matrix_ok [OF h1]
    by (simp add: sample_M_def sample_D_def)
      (rule tabulate_eqI, simp add: numeral_2_eq_2)
  have h4: "inv_contract inv_1x1 (tabulate 1 1 (\<lambda>a b. 4))"
    by (simp add: inv_contract_def inv_1x1_def is_inverse_def matmul_def eye_def)
      (auto intro!: tabulate_eqI)
  note ex = C1_woodbury_inverse [where dev = "()", OF h1 h2 h3 h4]
  show ?thesis
    by (intro conjI h1 h2 h3 h4 ex)
qed

text \<open>
  C8: for \<open>Nh = 0\<close> (an \<open>Npix \<times> 0\<close> matrix \<open>M\<close>) and positive \<open>D\<close>, where the library
  inversion keeps its contract at the empty inner matrix and the library determinant is
  exact, \<open>MatrixInverse\<close> returns \<open>diag(1/D)\<close>, the \<open>Npix \<times> Npix\<close> matrix with \<open>1 / D\<^sub>i\<close>
  at position \<open>(i, i)\<close> and 0 elsewhere, and \<open>MatrixLogDet\<close> returns \<open>sum(log(D))\<close>, the
  finite sum of the logarithms.
\<close>

theorem C8_degenerate_Nh_zero:
  assumes nh: "ncols M = 0"
    and sh: "nrows M = length D"
    and pos: "list_all (\<lambda>d. 0 < d) D"
    and A: "inner_matrix M D = Inr A"
    and contract: "inv_contract linalg_inv A"
  shows "MatrixInverse linalg_inv M D dev
      = Inr (tabulate (length D) (length D) (\<lambda>i j. if i = j then 1 / D ! i else 0))
    \<and> MatrixLogDet exact_det M D dev = Inr (torch_sum (map torch_log D))
    \<and> torch_sum (map torch_log D) = Finite (\<Sum>d\<leftarrow>D. ln d)"
proof (intro conjI)
  have Aeq: "A = tabulate 0 0 (inner_fun (ent M) (\<lambda>p. 1 / D ! p) (length D))"
    using A inner_matrix_fun [OF sh] nh by simp
  have "is_inverse (tabulate 0 0 (\<lambda>i j. 0)) A"
    unfolding Aeq is_inverse_def matmul_def eye_def
    by (simp add: tabulate_def)
  with contract obtain B where B: "linalg_inv A = Inr B" and inv: "is_inverse B A"
    by (auto simp: inv_contract_def split: sum.splits)
  from inv have shB: "nrows B = ncols M" "ncols B = ncols M"
    by (simp_all add: is_inverse_def Aeq nh)
  have d: "diag (reciprocal D)
      = tabulate (length D) (length D) (\<lambda>i j. if i = j then 1 / D ! i else 0)"
    unfolding diag_def length_reciprocal
    by (rule tabulate_eqI) (simp add: reciprocal_def)
  show "MatrixInverse linalg_inv M D dev
      = Inr (tabulate (length D) (length D) (\<lambda>i j. if i = j then 1 / D ! i else 0))"
    using MatrixInverse_woodbury [where linalg_inv = linalg_inv, OF sh A B shB]
    by (simp add: woodbury_empty [OF nh] d)
  show s: "torch_sum (map torch_log D) = Finite (\<Sum>d\<leftarrow>D. ln d)"
    by (rule torch_sum_log_pos [OF pos])
  have "exact_det A = Inr 1"
    by (simp add: exact_det_def Aeq)
  then show "MatrixLogDet exact_det M D dev = Inr (torch_sum (map torch_log D))"
    by (simp add: MatrixLogDet_def A s torch_log_def)
qed


theorem C8_degenerate_Nh_zero_witness:
  "ncols (tabulate 2 0 (\<lambda>i j. 0)) = 0
   \<and> nrows (tabulate 2 0 (\<lambda>i j. 0)) = length sample_D
   \<and> list_all (\<lambda>d. 0 < d) sample_D
   \<and> inner_matrix (tabulate 2 0 (\<lambda>i j. 0)) sample_D = Inr (tabulate 0 0 (\<lambda>i j. 0))
   \<and> inv_contract (\<lambda>A. Inr A) (tabulate 0 0 (\<lambda>i j. 0))
   \<and> MatrixInverse (\<lambda>A. Inr A) (tabulate 2 0 (\<lambda>i j. 0)) sample_D ()
       = Inr (tabulate (length sample_D) (length sample_D)
           (\<lambda>i j. if i = j then 1 / sample_D ! i else 0))
   \<and> MatrixLogDet exact_det (tabulate 2 0 (\<lambda>i j. 0)) sample_D () = Inr (torch_sum (map torch_log sample_D))
   \<and> torch_sum (map torch_log sample_D) = Finite (\<Sum>d\<leftarrow>sample_D. ln d)"
proof -
  have h1: "ncols (tabulate 2 0 (\<lambda>i j. 0)) = 0"
    by simp
  have h2: "nrows (tabulate 2 0 (\<lambda>i j. 0)) = length sample_D"
    by (simp add: sample_D_def)
  have h3: "list_all (\<lambda>d. 0 < d) sample_D"
    by (simp add: sample_D_def)
  have h4: "inner_matrix (tabulate 2 0 (\<lambda>i j. 0)) sample_D = Inr (tabulate 0 0 (\<lambda>i j. 0))"
    unfolding inner_matrix_ok [OF h2]
    by simp (rule tabulate_eqI, simp)
  have h5: "inv_contract (\<lambda>A. Inr A) (tabulate 0 0 (\<lambda>i j. 0))"
    by (simp add: inv_contract_def is_inverse_def matmul_def eye_def)
      (rule tabulate_eqI, simp)
  note c = C8_degenerate_Nh_zero [where dev = "()" and linalg_inv = "\<lambda>A. Inr A", OF h1 h2 h3 h4 h5]
  show ?thesis
    by (intro conjI h1 h2 h3 h4 h5 c [THEN conjunct1] c [THEN conjunct2, THEN conjunct1]
        c [THEN conjunct2, THEN conjunct2])
qed

text \<open>
  C4 (as stated): a singular inner matrix in \<open>MatrixInverse\<close>, or a non-positive computed
  determinant in \<open>MatrixLogDet\<close>, is signalled as a \<^verbatim>\<open>NumericalInstabilityError\<close>. This
  fails: for \<open>M = (1)\<close> and \<open>D = (-1)\<close> the inner matrix is \<open>(0)\<close>; \<open>MatrixLogDet\<close> returns
  \<open>nan\<close> and raises nothing, and \<open>MatrixInverse\<close> lets the \<^verbatim>\<open>LinAlgError\<close> of the library
  inversion escape.
\<close>

theorem C4_counterexample:
  "inner_matrix unit_M [- 1] = Inr (tabulate 1 1 (\<lambda>i j. 0))
   \<and> exact_det (tabulate 1 1 (\<lambda>i j. 0)) = Inr 0
   \<and> MatrixLogDet exact_det unit_M [- 1] () = Inr NaN
   \<and> inv_1x1 (tabulate 1 1 (\<lambda>i j. 0)) = Inl LinAlgError
   \<and> MatrixInverse inv_1x1 unit_M [- 1] () = Inl LinAlgError
   \<and> MatrixInverse inv_1x1 unit_M [- 1] () \<noteq> Inl NumericalInstabilityError"
proof -
  have sh: "nrows unit_M = length [- 1 :: real]"
    by (simp add: unit_M_def)
  have A: "inner_matrix unit_M [- 1] = Inr (tabulate 1 1 (\<lambda>i j. 0))"
    unfolding inner_matrix_ok [OF sh]
    by (simp add: unit_M_def) (rule tabulate_eqI, simp)
  have d: "exact_det (tabulate 1 1 (\<lambda>i j. 0)) = Inr 0"
    by (simp add: exact_det_def)
  have l: "MatrixLogDet exact_det unit_M [- 1] () = Inr NaN"
    by (simp add: MatrixLogDet_def A exact_det_def torch_log_def torch_sum_def)
  have i: "inv_1x1 (tabulate 1 1 (\<lambda>i j. 0)) = Inl LinAlgError"
    by (simp add: inv_1x1_def)
  have t1: "matmul (diag (reciprocal [- 1])) unit_M
      = Inr (tabulate 1 1 (\<lambda>i j. [- 1] ! i * ent unit_M i j))"
    using diag_matmul [of unit_M "reciprocal [- 1]"]
    by (simp add: unit_M_def reciprocal_def)
  have m: "MatrixInverse inv_1x1 unit_M [- 1] () = Inl LinAlgError"
    unfolding MatrixInverse_def Let_def t1 bind_Inr A i bind_Inl ..
  show ?thesis
    by (intro conjI A d l i m) (simp add: m)
qed

text \<open>
  C4 (amended): for \<open>M\<close> and \<open>D\<close> of matching shapes, an exception raised by the library
  inversion on the inner matrix escapes from \<open>MatrixInverse\<close> unchanged; \<open>MatrixLogDet\<close>
  raises nothing for a non-positive computed determinant of the inner matrix: it returns
  \<open>nan\<close> when the determinant is negative, and \<open>-inf\<close> or \<open>nan\<close> when it is 0.
\<close>

theorem C4_library_failures:
  assumes sh: "nrows M = length D" and A: "inner_matrix M D = Inr A"
  shows "(linalg_inv A = Inl e \<longrightarrow> MatrixInverse linalg_inv M D dev = Inl e)
    \<and> (linalg_det A = Inr d \<and> d < 0 \<longrightarrow> MatrixLogDet linalg_det M D dev = Inr NaN)
    \<and> (linalg_det A = Inr d \<and> d = 0 \<longrightarrow>
          MatrixLogDet linalg_det M D dev = Inr NegInf \<or> MatrixLogDet linalg_det M D dev = Inr NaN)"
proof (intro conjI impI)
  assume e: "linalg_inv A = Inl e"
  have "\<exists>t1. matmul (diag (reciprocal D)) M = Inr t1"
    using diag_matmul [of M "reciprocal D"] sh by simp
  then obtain t1 where "matmul (diag (reciprocal D)) M = Inr t1" ..
  then show "MatrixInverse linalg_inv M D dev = Inl e"
    by (simp add: MatrixInverse_def A e)
next
  assume "linalg_det A = Inr d \<and> d < 0"
  then show "MatrixLogDet linalg_det M D dev = Inr NaN"
    by (simp add: MatrixLogDet_def A torch_log_def)
next
  assume "linalg_det A = Inr d \<and> d = 0"
  then show "MatrixLogDet linalg_det M D dev = Inr NegInf \<or> MatrixLogDet linalg_det M D dev = Inr NaN"
    using fl_add_NegInf [of "torch_sum (map torch_log D)"]
    by (simp add: MatrixLogDet_def A torch_log_def)
qed

theorem C4_library_failures_witness:
  "nrows unit_M = length [- 1 :: real]
   \<and> inner_matrix unit_M [- 1] = Inr (tabulate 1 1 (\<lambda>i j. 0))
   \<and> inv_1x1 (tabulate 1 1 (\<lambda>i j. 0)) = Inl LinAlgError
   \<and> MatrixInverse inv_1x1 unit_M [- 1] () = Inl LinAlgError
   \<and> exact_det (tabulate 1 1 (\<lambda>i j. 0)) = Inr 0
   \<and> MatrixLogDet exact_det unit_M [- 1] () \<in> {Inr NegInf, Inr NaN}
   \<and> nrows unit_M = length [- (1/2) :: real]
   \<and> inner_matrix unit_M [- (1/2)] = Inr (tabulate 1 1 (\<lambda>i j. - 1))
   \<and> exact_det (tabulate 1 1 (\<lambda>i j. - 1)) = Inr (- 1)
   \<and> MatrixLogDet exact_det unit_M [- (1/2)] () = Inr NaN"
proof -
  have sh: "nrows unit_M = length [- 1 :: real]"
    by (simp add: unit_M_def)
  have A: "inner_matrix unit_M [- 1] = Inr (tabulate 1 1 (\<lambda>i j. 0))"
    unfolding inner_matrix_ok [OF sh]
    by (simp add: unit_M_def) (rule tabulate_eqI, simp)
  have i: "inv_1x1 (tabulate 1 1 (\<lambda>i j. 0)) = Inl LinAlgError"
    by (simp add: inv_1x1_def)
  have d: "exact_det (tabulate 1 1 (\<lambda>i j. 0)) = Inr 0"
    by (simp add: exact_det_def)
  have sh': "nrows unit_M = length [- (1/2) :: real]"
    by (simp add: unit_M_def)
  have A': "inner_matrix unit_M [- (1/2)] = Inr (tabulate 1 1 (\<lambda>i j. - 1))"
    unfolding inner_matrix_ok [OF sh']
    by (simp add: unit_M_def) (rule tabulate_eqI, simp)
  have d': "exact_det (tabulate 1 1 (\<lambda>i j. - 1)) = Inr (- 1)"
    by (simp add: exact_det_def)
  note a = C4_library_failures [OF sh A, where linalg_inv = inv_1x1 and e = LinAlgError
      and dev = "()" and linalg_det = exact_det and d = 0]
  note b = C4_library_failures [OF sh' A', where linalg_det = exact_det and d = "- 1"
      and dev = "()"]
  have 1: "MatrixInverse inv_1x1 unit_M [- 1] () = Inl LinAlgError"
    using a i by simp
  have 2: "MatrixLogDet exact_det unit_M [- 1] () \<in> {Inr NegInf, Inr NaN}"
    using a d by simp
  have 3: "MatrixLogDet exact_det unit_M [- (1/2)] () = Inr NaN"
    using b d' by simp
  show ?thesis
    by (intro conjI sh A i 1 d 2 sh' A' d' 3)
qed

text \<open>
  C9 (as stated): both operations run in \<open>O(Npix * Nh\<^sup>2 + Nh\<^sup>3)\<close>. This fails for
  \<open>MatrixInverse\<close> already on the inputs with \<open>Nh = 1\<close>: no constant \<open>c\<close> bounds the number of
  scalar multiplications of its products by \<open>c * (Npix * 1\<^sup>2 + 1\<^sup>3)\<close> for every \<open>Npix\<close>, because
  the last product multiplies two dense \<open>Npix \<times> Npix\<close> matrices.
\<close>

theorem C9_counterexample:
  "\<not> (\<exists>c. \<forall>Npix. \<exists>R n.
        MatrixInverse_count inv_1x1 (tabulate Npix 1 (\<lambda>i j. 0)) (replicate Npix 1) () = Inr (R, n)
        \<and> n \<le> c * (Npix * 1\<^sup>2 + 1 ^ 3))"
proof
  assume "\<exists>c. \<forall>Npix. \<exists>R n.
        MatrixInverse_count inv_1x1 (tabulate Npix 1 (\<lambda>i j. 0)) (replicate Npix 1) () = Inr (R, n)
        \<and> n \<le> c * (Npix * 1\<^sup>2 + 1 ^ 3)"
  then obtain c R n where
    cnt: "MatrixInverse_count inv_1x1 (tabulate (c + 2) 1 (\<lambda>i j. 0)) (replicate (c + 2) 1) ()
      = Inr (R, n)"
    and le: "n \<le> c * ((c + 2) * 1\<^sup>2 + 1 ^ 3)"
    by blast
  let ?M = "tabulate (c + 2) 1 (\<lambda>i j. 0)" and ?D = "replicate (c + 2) (1 :: real)"
  have sh: "nrows ?M = length ?D"
    by simp
  have A: "inner_matrix ?M ?D = Inr (tabulate 1 1 (\<lambda>a b. 1))"
    unfolding inner_matrix_ok [OF sh]
    by simp (rule tabulate_eqI, simp)
  have B: "inv_1x1 (tabulate 1 1 (\<lambda>a b. 1)) = Inr (tabulate 1 1 (\<lambda>i j. 1))"
    by (simp add: inv_1x1_def)
  have "MatrixInverse_count inv_1x1 ?M ?D ()
      = Inr (woodbury ?M ?D (tabulate 1 1 (\<lambda>i j. 1)), MatrixInverse_mults (length ?D) (ncols ?M))"
    by (rule MatrixInverse_count_ok [where linalg_inv = inv_1x1, OF sh A B]) simp_all
  with cnt have "n = MatrixInverse_mults (c + 2) 1"
    by simp
  then have "(c + 2) ^ 3 \<le> n"
    by (simp add: MatrixInverse_mults_def)
  with le cubic_exceeds [of c] show False
    by simp
qed

text \<open>
  C9 (amended): for \<open>M\<close> of shape \<open>(Npix, Nh)\<close> and \<open>D\<close> of length \<open>Npix\<close>, the matrix given
  to the library inversion and to the library determinant is the \<open>Nh \<times> Nh\<close> inner matrix,
  and the results depend on the two library functions through their values at this one
  matrix only. The products are dense: when the library calls return, the six products of
  \<open>MatrixInverse\<close> take \<open>Npix\<^sup>3 + 3 * Npix\<^sup>2 * Nh + 2 * Npix * Nh\<^sup>2\<close> scalar multiplications and
  the two products of \<open>MatrixLogDet\<close> take \<open>Npix\<^sup>2 * Nh + Npix * Nh\<^sup>2\<close>.
\<close>

theorem C9_library_calls_and_cost:
  assumes sh: "nrows M = length D" and A: "inner_matrix M D = Inr A"
    and B: "linalg_inv A = Inr B" "nrows B = ncols M" "ncols B = ncols M"
    and d: "linalg_det A = Inr d"
  shows "nrows A = ncols M \<and> ncols A = ncols M
    \<and> (\<forall>inv'. inv' A = linalg_inv A \<longrightarrow>
          MatrixInverse inv' M D dev = MatrixInverse linalg_inv M D dev)
    \<and> (\<forall>det'. det' A = linalg_det A \<longrightarrow>
          MatrixLogDet det' M D dev = MatrixLogDet linalg_det M D dev)
    \<and> (\<exists>R. MatrixInverse linalg_inv M D dev = Inr R
          \<and> MatrixInverse_count linalg_inv M D dev
              = Inr (R, MatrixInverse_mults (length D) (ncols M)))
    \<and> (\<exists>y. MatrixLogDet linalg_det M D dev = Inr y
          \<and> MatrixLogDet_count linalg_det M D dev
              = Inr (y, MatrixLogDet_mults (length D) (ncols M)))"
proof (intro conjI allI impI)
  show "nrows A = ncols M" and "ncols A = ncols M"
    using A inner_matrix_ok [OF sh] by auto
  show "MatrixInverse inv' M D dev = MatrixInverse linalg_inv M D dev"
    if "inv' A = linalg_inv A" for inv'
    using that by (simp add: MatrixInverse_def A)
  show "MatrixLogDet det' M D dev = MatrixLogDet linalg_det M D dev"
    if "det' A = linalg_det A" for det'
    using that by (simp add: MatrixLogDet_def A)
  have "MatrixInverse linalg_inv M D dev = Inr (woodbury M D B)"
    by (rule MatrixInverse_woodbury [where linalg_inv = linalg_inv, OF sh A B])
  moreover have "MatrixInverse_count linalg_inv M D dev
      = Inr (woodbury M D B, MatrixInverse_mults (length D) (ncols M))"
    by (rule MatrixInverse_count_ok [where linalg_inv = linalg_inv, OF sh A B])
  ultimately show "\<exists>R. MatrixInverse linalg_inv M D dev = Inr R
      \<and> MatrixInverse_count linalg_inv M D dev
          = Inr (R, MatrixInverse_mults (length D) (ncols M))"
    by simp
  have "MatrixLogDet linalg_det M D dev
      = Inr (fl_add (torch_sum (map torch_log D)) (torch_log d))"
    by (simp add: MatrixLogDet_def A d)
  moreover note MatrixLogDet_count_ok [where linalg_det = linalg_det and dev = dev, OF sh A d]
  ultimately show "\<exists>y. MatrixLogDet linalg_det M D dev = Inr y
      \<and> MatrixLogDet_count linalg_det M D dev
          = Inr (y, MatrixLogDet_mults (length D) (ncols M))"
    by simp
qed

theorem C9_library_calls_and_cost_witness:
  "nrows sample_M = length sample_D
   \<and> inner_matrix sample_M sample_D = Inr (tabulate 1 1 (\<lambda>a b. 4))
   \<and> inv_1x1 (tabulate 1 1 (\<lambda>a b. 4)) = Inr (tabulate 1 1 (\<lambda>i j. 1 / 4))
   \<and> exact_det (tabulate 1 1 (\<lambda>a b. 4)) = Inr 4
   \<and> MatrixInverse (\<lambda>X. Inr (tabulate 1 1 (\<lambda>i j. 1 / 4))) sample_M sample_D ()
       = MatrixInverse inv_1x1 sample_M sample_D ()
   \<and> MatrixLogDet (\<lambda>X. Inr 4) sample_M sample_D () = MatrixLogDet exact_det sample_M sample_D ()
   \<and> (\<exists>R. MatrixInverse inv_1x1 sample_M sample_D () = Inr R
        \<and> MatrixInverse_count inv_1x1 sample_M sample_D () = Inr (R, 24))
   \<and> (\<exists>y. MatrixLogDet exact_det sample_M sample_D () = Inr y
        \<and> MatrixLogDet_count exact_det sample_M sample_D () = Inr (y, 6))"
proof -
  have h1: "nrows sample_M = length sample_D"
    by (simp add: sample_M_def sample_D_def)
  have h2: "inner_matrix sample_M sample_D = Inr (tabulate 1 1 (\<lambda>a b. 4))"
    unfolding inner_matrix_ok [OF h1]
    by (simp add: sample_M_def sample_D_def)
      (rule tabulate_eqI, simp add: numeral_2_eq_2)
  have h3: "inv_1x1 (tabulate 1 1 (\<lambda>a b. 4)) = Inr (tabulate 1 1 (\<lambda>i j. 1 / 4))"
    by (simp add: inv_1x1_def)
  have h4: "exact_det (tabulate 1 1 (\<lambda>a b. 4)) = Inr 4"
    by (simp add: exact_det_def)
  have s: "nrows (tabulate 1 1 (\<lambda>i j. 1 / 4 :: real)) = ncols sample_M"
    "ncols (tabulate 1 1 (\<lambda>i j. 1 / 4 :: real)) = ncols sample_M"
    by (simp_all add: sample_M_def)
  note c = C9_library_calls_and_cost [where dev = "()" and linalg_inv = inv_1x1
      and linalg_det = exact_det, OF h1 h2 h3 s h4]
  have m: "MatrixInverse_mults (length sample_D) (ncols sample_M) = 24"
    "MatrixLogDet_mults (length sample_D) (ncols sample_M) = 6"
    by (simp_all add: MatrixInverse_mults_def MatrixLogDet_mults_def sample_D_def sample_M_def
        power2_eq_square power3_eq_cube)
  note c3 = c [THEN conjunct2, THEN conjunct2, THEN conjunct1, rule_format]
  note c4 = c [THEN conjunct2, THEN conjunct2, THEN conjunct2, THEN conjunct1, rule_format]
  note c5 = c [THEN conjunct2, THEN conjunct2, THEN conjunct2, THEN conjunct2, THEN conjunct1]
  note c6 = c [THEN conjunct2, THEN conjunct2, THEN conjunct2, THEN conjunct2, THEN conjunct2]
  have 5: "MatrixInverse (\<lambda>X. Inr (tabulate 1 1 (\<lambda>i j. 1 / 4))) sample_M sample_D ()
       = MatrixInverse inv_1x1 sample_M sample_D ()"
    by (rule c3) (simp only: h3)
  have 6: "MatrixLogDet (\<lambda>X. Inr 4) sample_M sample_D () = MatrixLogDet exact_det sample_M sample_D ()"
    by (rule c4) (simp only: h4)
  have 7: "\<exists>R. MatrixInverse inv_1x1 sample_M sample_D () = Inr R
        \<and> MatrixInverse_count inv_1x1 sample_M sample_D () = Inr (R, 24)"
    using c5 unfolding m .
  have 8: "\<exists>y. MatrixLogDet exact_det sample_M sample_D () = Inr y
        \<and> MatrixLogDet_count exact_det sample_M sample_D () = Inr (y, 6)"
    using c6 unfolding m .
  show ?thesis
    by (intro conjI h1 h2 h3 h4 5 6 7 8)
qed

end
